theory Spec2Isabelle
  imports Complex_Main
begin

section \<open>JavaScript numbers\<close>

text \<open>
  A JavaScript number is an IEEE 754 double: a finite value, one of the two infinities, or
  NaN. Every double is a value of \<open>fp\<close>; the finite ones are \<open>Fin x\<close> with \<open>x\<close> zero or
  \<open>x = m * 2 ^ e\<close> for integers \<open>\<bar>m\<bar> < 2 ^ 53\<close> and \<open>- 1074 \<le> e \<le> 971\<close>. The two zeros
  are one value \<open>Fin 0\<close>: comparison and the operations used here treat them alike, except
  a division by a zero, which \<open>fdiv\<close> singles out.

  Each arithmetic operation returns the exact result rounded to the nearest double, a tie
  going to the double with the even significand, and an infinity when the rounded value
  reaches \<open>2 ^ 1024\<close> (\<open>fl\<close>). The spacing of the doubles around \<open>x\<close> is \<open>2 ^ expo x\<close>:
  \<open>2 ^ (e + 52) \<le> \<bar>x\<bar> < 2 ^ (e + 53)\<close> in the normal range, \<open>e = - 1074\<close> below it.
\<close>

datatype fp = Fin real | PInf | NInf | NaN

definition pow2 :: "int \<Rightarrow> real" where
  "pow2 e = 2 powi e"

definition round_even :: "real \<Rightarrow> int" where
  "round_even r =
     (let f = \<lfloor>r\<rfloor>
      in if r - of_int f < 1 / 2 then f
         else if 1 / 2 < r - of_int f then f + 1
         else if even f then f else f + 1)"

definition expo :: "real \<Rightarrow> int" where
  "expo x = (case find (\<lambda>e. \<bar>x\<bar> < pow2 (e + 53)) [- 1074..971] of Some e \<Rightarrow> e | None \<Rightarrow> 972)"

definition fl :: "real \<Rightarrow> fp" where
  "fl x =
     (let e = expo x;
          y = of_int (round_even (x / pow2 e)) * pow2 e
      in if pow2 1024 \<le> y then PInf
         else if y \<le> - pow2 1024 then NInf
         else Fin y)"

text \<open>A numeric literal of the source denotes the double nearest to its decimal value.\<close>

definition num_lit :: "real \<Rightarrow> fp" where
  "num_lit r = fl r"

text \<open>\<^verbatim>\<open>a + b\<close>, \<^verbatim>\<open>- a\<close>, \<^verbatim>\<open>a - b\<close>, \<^verbatim>\<open>a * b\<close>.\<close>

fun fadd :: "fp \<Rightarrow> fp \<Rightarrow> fp" where
  "fadd (Fin a) (Fin b) = fl (a + b)"
| "fadd NaN _ = NaN"
| "fadd _ NaN = NaN"
| "fadd PInf NInf = NaN"
| "fadd NInf PInf = NaN"
| "fadd PInf _ = PInf"
| "fadd _ PInf = PInf"
| "fadd NInf _ = NInf"
| "fadd _ NInf = NInf"

fun fneg :: "fp \<Rightarrow> fp" where
  "fneg (Fin a) = Fin (- a)"
| "fneg PInf = NInf"
| "fneg NInf = PInf"
| "fneg NaN = NaN"

definition fsub :: "fp \<Rightarrow> fp \<Rightarrow> fp" where
  "fsub a b = fadd a (fneg b)"

text \<open>The infinity of the sign of \<open>a * b\<close>, for \<open>b\<close> an infinity of sign \<open>positive\<close>.\<close>

definition inf_times :: "real \<Rightarrow> bool \<Rightarrow> fp" where
  "inf_times a positive =
     (if a = 0 then NaN else if (0 < a) = positive then PInf else NInf)"

fun fmul :: "fp \<Rightarrow> fp \<Rightarrow> fp" where
  "fmul (Fin a) (Fin b) = fl (a * b)"
| "fmul NaN _ = NaN"
| "fmul _ NaN = NaN"
| "fmul (Fin a) PInf = inf_times a True"
| "fmul (Fin a) NInf = inf_times a False"
| "fmul PInf (Fin b) = inf_times b True"
| "fmul NInf (Fin b) = inf_times b False"
| "fmul PInf PInf = PInf"
| "fmul NInf NInf = PInf"
| "fmul PInf NInf = NInf"
| "fmul NInf PInf = NInf"



fun ffloor :: "fp \<Rightarrow> fp" where
  "ffloor (Fin a) = Fin (of_int \<lfloor>a\<rfloor>)"
| "ffloor PInf = PInf"
| "ffloor NInf = NInf"
| "ffloor NaN = NaN"

section \<open>Fact store\<close>

text \<open>
  The \<^verbatim>\<open>facts\<close> table of the component and its queries and mutations
  (\<^verbatim>\<open>get\<close>, \<^verbatim>\<open>store\<close>, \<^verbatim>\<open>storeBatch\<close>, \<^verbatim>\<open>remove\<close>).

  A table is the list of its documents in insertion order, which is the order of the
  system field \<^verbatim>\<open>_creationTime\<close> that every index falls back to. Document ids are opaque
  in the source; here the id that \<^verbatim>\<open>ctx.db.insert\<close> hands out is the number of documents
  inserted so far (no mutation deletes a fact). \<^verbatim>\<open>Date.now()\<close> is an argument of each
  mutation. An optional field is an \<open>option\<close>; \<^verbatim>\<open>!fact.supersededBy\<close> holds exactly when
  the field is absent, since an id is a non-empty string.
\<close>

datatype factCategory = Credential | Preference | Policy | Decision | Contact | Date | General

record fact =
  fact_id :: nat
  key :: string
  fvalue :: string
  category :: "factCategory option"
  fact_blockId :: nat
  fact_turnId :: "string option"
  evidenceSnippet :: "string option"
  supersededBy :: "nat option"
  fact_createdAt :: int

type_synonym facts_table = "fact list"

text \<open>The arguments of \<^verbatim>\<open>store\<close>, and of each element of \<^verbatim>\<open>storeBatch\<close>.\<close>

record fact_args =
  arg_key :: string
  arg_value :: string
  arg_category :: "factCategory option"
  arg_blockId :: nat
  arg_turnId :: "string option"
  arg_evidenceSnippet :: "string option"

subsection \<open>Database primitives\<close>

definition facts_db_get :: "facts_table \<Rightarrow> nat \<Rightarrow> fact option" where
  "facts_db_get tbl i = find (\<lambda>r. fact_id r = i) tbl"

text \<open>\<^verbatim>\<open>ctx.db.insert("facts", doc)\<close>: appends the document under a fresh id and returns the id.\<close>

definition facts_db_insert :: "facts_table \<Rightarrow> fact \<Rightarrow> facts_table \<times> nat" where
  "facts_db_insert tbl doc = (tbl @ [doc\<lparr>fact_id := length tbl\<rparr>], length tbl)"

text \<open>\<^verbatim>\<open>ctx.db.patch(id, {supersededBy: newId})\<close>.\<close>

definition facts_db_patch_supersededBy :: "facts_table \<Rightarrow> nat \<Rightarrow> nat \<Rightarrow> facts_table" where
  "facts_db_patch_supersededBy tbl i newId =
     map (\<lambda>r. if fact_id r = i then r\<lparr>supersededBy := Some newId\<rparr> else r) tbl"

text \<open>\<^verbatim>\<open>query("facts").withIndex("by_key", q => q.eq("key", k)).collect()\<close>, oldest first.\<close>

definition facts_by_key :: "facts_table \<Rightarrow> string \<Rightarrow> fact list" where
  "facts_by_key tbl k = filter (\<lambda>r. key r = k) tbl"

subsection \<open>Queries\<close>

text \<open>
  The handler of \<^verbatim>\<open>get\<close>: the rows of the key newest first, the first of them that is not
  superseded, as the raw document.
\<close>

definition get_handler :: "facts_table \<Rightarrow> string \<Rightarrow> fact option" where
  "get_handler tbl k = find (\<lambda>r. supersededBy r = None) (rev (facts_by_key tbl k))"

text \<open>
  \<^verbatim>\<open>get\<close> is registered with a \<^verbatim>\<open>returns\<close> validator, which the value of the handler has to
  pass before the query returns it: \<^verbatim>\<open>null\<close>, or an object with the fields that
  \<open>get_returns_fields\<close> lists. An object validator admits no field that it does not list. A
  stored document carries the system fields \<^verbatim>\<open>_id\<close> and \<^verbatim>\<open>_creationTime\<close>, the required fields
  and those optional fields that are set; \<open>fact_doc_fields\<close> names them. (The value of
  \<^verbatim>\<open>_creationTime\<close> is not kept in the model: the order of the table stands for it.)
\<close>

datatype query_error = ReturnValidationError

definition get_returns_fields :: "string list" where
  "get_returns_fields =
     [''_id'', ''key'', ''value'', ''category'', ''blockId'', ''turnId'', ''evidenceSnippet'',
      ''supersededBy'', ''createdAt'']"

definition fact_doc_fields :: "fact \<Rightarrow> string list" where
  "fact_doc_fields f =
     [''_id'', ''_creationTime'', ''key'', ''value'', ''blockId'', ''createdAt'']
     @ (case category f of None \<Rightarrow> [] | Some _ \<Rightarrow> [''category''])
     @ (case fact_turnId f of None \<Rightarrow> [] | Some _ \<Rightarrow> [''turnId''])
     @ (case evidenceSnippet f of None \<Rightarrow> [] | Some _ \<Rightarrow> [''evidenceSnippet''])
     @ (case supersededBy f of None \<Rightarrow> [] | Some _ \<Rightarrow> [''supersededBy''])"

definition passes_get_returns :: "fact option \<Rightarrow> bool" where
  "passes_get_returns v =
     (case v of
        None \<Rightarrow> True
      | Some doc \<Rightarrow> list_all (\<lambda>field. field \<in> set get_returns_fields) (fact_doc_fields doc))"

text \<open>The query \<^verbatim>\<open>get\<close> as a caller sees it: the handler's value, or the validation error.\<close>

definition facts_get :: "facts_table \<Rightarrow> string \<Rightarrow> query_error + fact option" where
  "facts_get tbl k =
     (let v = get_handler tbl k
      in if passes_get_returns v then Inr v else Inl ReturnValidationError)"

subsection \<open>Mutations\<close>

text \<open>
  The loop of \<^verbatim>\<open>store\<close> over the rows read before the insert: each row that was not
  superseded when it was read is patched to point at the new row.
\<close>

definition supersede_existing :: "facts_table \<Rightarrow> fact list \<Rightarrow> nat \<Rightarrow> facts_table" where
  "supersede_existing tbl existingFacts newFactId =
     foldl (\<lambda>t existingFact.
              if supersededBy existingFact = None
              then facts_db_patch_supersededBy t (fact_id existingFact) newFactId
              else t)
           tbl existingFacts"

definition store :: "facts_table \<Rightarrow> int \<Rightarrow> fact_args \<Rightarrow> facts_table \<times> nat" where
  "store tbl now args =
     (let existingFacts = facts_by_key tbl (arg_key args);
          (tbl1, newFactId) = facts_db_insert tbl
             \<lparr> fact_id = 0, key = arg_key args, fvalue = arg_value args,
               category = arg_category args, fact_blockId = arg_blockId args,
               fact_turnId = arg_turnId args, evidenceSnippet = arg_evidenceSnippet args,
               supersededBy = None, fact_createdAt = now \<rparr>
      in (supersede_existing tbl1 existingFacts newFactId, newFactId))"

text \<open>\<^verbatim>\<open>storeBatch\<close>: the body of \<^verbatim>\<open>store\<close> for each element in order, with one \<^verbatim>\<open>now\<close>.\<close>

fun storeBatch_loop :: "facts_table \<Rightarrow> int \<Rightarrow> fact_args list \<Rightarrow> nat list \<Rightarrow> facts_table \<times> nat list" where
  "storeBatch_loop tbl now [] newFactIds = (tbl, newFactIds)"
| "storeBatch_loop tbl now (factData # rest) newFactIds =
     (case store tbl now factData of
        (tbl', newFactId) \<Rightarrow> storeBatch_loop tbl' now rest (newFactIds @ [newFactId]))"

definition storeBatch :: "facts_table \<Rightarrow> int \<Rightarrow> fact_args list \<Rightarrow> facts_table \<times> nat list" where
  "storeBatch tbl now factsArg = storeBatch_loop tbl now factsArg []"

text \<open>
  \<^verbatim>\<open>remove\<close>: nothing when the id resolves to no row; otherwise a \<^verbatim>\<open>[DELETED]\<close> row of the
  same key is inserted and the target row is patched to point at it.
\<close>

definition remove :: "facts_table \<Rightarrow> int \<Rightarrow> nat \<Rightarrow> facts_table" where
  "remove tbl now factId =
     (case facts_db_get tbl factId of
        None \<Rightarrow> tbl
      | Some f \<Rightarrow>
          (let (tbl1, deletedFactId) = facts_db_insert tbl
                 \<lparr> fact_id = 0, key = key f, fvalue = ''[DELETED]'',
                   category = category f, fact_blockId = fact_blockId f,
                   fact_turnId = None,
                   evidenceSnippet = Some ''Fact was explicitly deleted'',
                   supersededBy = None, fact_createdAt = now \<rparr>
           in facts_db_patch_supersededBy tbl1 factId deletedFactId))"

subsection \<open>Sequences of fact-store operations\<close>

datatype fact_op =
    Store fact_args int
  | StoreBatch "fact_args list" int
  | Remove nat int

fun fact_step :: "facts_table \<Rightarrow> fact_op \<Rightarrow> facts_table" where
  "fact_step tbl (Store args now) = fst (store tbl now args)"
| "fact_step tbl (StoreBatch argss now) = fst (storeBatch tbl now argss)"
| "fact_step tbl (Remove factId now) = remove tbl now factId"

definition fact_run :: "fact_op list \<Rightarrow> facts_table" where
  "fact_run ops = foldl fact_step [] ops"

text \<open>The rows of a key that are not superseded.\<close>

definition live_rows :: "facts_table \<Rightarrow> string \<Rightarrow> fact list" where
  "live_rows tbl k = filter (\<lambda>r. key r = k \<and> supersededBy r = None) tbl"

subsection \<open>Well-formed tables and the supersession invariant\<close>

text \<open>The ids of a table are the positions of its rows: what \<open>facts_db_insert\<close> maintains.\<close>

definition ids_ok :: "facts_table \<Rightarrow> bool" where
  "ids_ok tbl = (map fact_id tbl = [0..<length tbl])"

text \<open>The row that \<open>store\<close> inserts, under the id it is given.\<close>

definition new_row :: "nat \<Rightarrow> int \<Rightarrow> fact_args \<Rightarrow> fact" where
  "new_row n now args =
     \<lparr> fact_id = n, key = arg_key args, fvalue = arg_value args,
       category = arg_category args, fact_blockId = arg_blockId args,
       fact_turnId = arg_turnId args, evidenceSnippet = arg_evidenceSnippet args,
       supersededBy = None, fact_createdAt = now \<rparr>"

text \<open>The arguments of the supersession scenario: one key, a value and a block.\<close>

definition deadline_args :: "string \<Rightarrow> nat \<Rightarrow> fact_args" where
  "deadline_args v b =
     \<lparr> arg_key = ''project_alpha_deadline'', arg_value = v, arg_category = Some Date,
       arg_blockId = b, arg_turnId = None, arg_evidenceSnippet = None \<rparr>"

text \<open>The invariant of the fact store: no key has two rows that are not superseded.\<close>

definition single_live :: "facts_table \<Rightarrow> bool" where
  "single_live tbl = (\<forall>k. length (live_rows tbl k) \<le> 1)"

section \<open>Bridge blocks and turns\<close>

text \<open>
  The tables \<^verbatim>\<open>bridgeBlocks\<close>, \<^verbatim>\<open>turns\<close> and \<^verbatim>\<open>topicAffinity\<close> and the mutations of the
  bridge block manager. Tables are lists in insertion order and ids are insertion counts,
  as for the fact store (no mutation deletes a block, a turn or an affinity row).
  \<^verbatim>\<open>ctx.db.patch\<close> of an id that resolves to no document throws; the mutation then fails
  as a whole and writes nothing, which is the result \<open>Inl NonexistentDocument\<close>.
\<close>

datatype blockStatus = ACTIVE | PAUSED | CLOSED

datatype db_error = NonexistentDocument

record block =
  block_id :: nat
  dayId :: string
  topicLabel :: string
  summary :: "string option"
  block_keywords :: "string list"
  status :: blockStatus
  prevBlockId :: "nat option"
  openLoops :: "string list"
  decisionsMade :: "string list"
  turnCount :: nat
  createdAt :: int
  updatedAt :: int

record turn =
  turn_id :: nat
  blockId :: nat
  turnId :: string
  userMessage :: string
  aiResponse :: string
  turn_keywords :: "string list option"
  affect :: "string option"
  timestamp :: int

record topicAffinityRow =
  affinity_id :: nat
  topic :: string
  evictionCount :: nat
  totalTimeInWindow :: int
  avgTimeInWindow :: real

record hmlr_db =
  bridgeBlocks :: "block list"
  turns :: "turn list"
  topicAffinity :: "topicAffinityRow list"

definition empty_db :: hmlr_db where
  "empty_db = \<lparr> bridgeBlocks = [], turns = [], topicAffinity = [] \<rparr>"

subsection \<open>Strings of numbers, lower case\<close>

text \<open>The decimal digits of a number, as a template literal prints an integer.\<close>

definition digit_char :: "nat \<Rightarrow> char" where
  "digit_char d = ''0123456789'' ! d"

function show_nat :: "nat \<Rightarrow> string" where
  "show_nat n = (if n < 10 then [digit_char n] else show_nat (n div 10) @ [digit_char (n mod 10)])"
  by pat_completeness auto
termination
  by (relation "measure id") auto

definition show_int :: "int \<Rightarrow> string" where
  "show_int i = (if i < 0 then CHR ''-'' # show_nat (nat (- i)) else show_nat (nat i))"

text \<open>
  \<^verbatim>\<open>toLowerCase\<close> on the letters \<open>A\<close> to \<open>Z\<close>; the model's characters are bytes, and every
  other byte is left as it is.
\<close>

definition lower_char :: "char \<Rightarrow> char" where
  "lower_char c =
     (case map_of (zip ''ABCDEFGHIJKLMNOPQRSTUVWXYZ'' ''abcdefghijklmnopqrstuvwxyz'') c of
        None \<Rightarrow> c
      | Some l \<Rightarrow> l)"

definition toLowerCase :: "string \<Rightarrow> string" where
  "toLowerCase s = map lower_char s"

subsection \<open>The JavaScript \<^verbatim>\<open>Set\<close>\<close>

text \<open>
  A \<^verbatim>\<open>Set\<close> iterates in insertion order and \<^verbatim>\<open>add\<close> of a member changes nothing: a list
  without repetition. \<^verbatim>\<open>new Set(xs)\<close> adds the elements of \<open>xs\<close> in order.
\<close>

definition set_add :: "'a list \<Rightarrow> 'a \<Rightarrow> 'a list" where
  "set_add s x = (if x \<in> set s then s else s @ [x])"

definition new_Set :: "'a list \<Rightarrow> 'a list" where
  "new_Set xs = foldl set_add [] xs"

subsection \<open>Database primitives\<close>

definition bridgeBlocks_get :: "block list \<Rightarrow> nat \<Rightarrow> block option" where
  "bridgeBlocks_get tbl i = find (\<lambda>b. block_id b = i) tbl"

definition bridgeBlocks_patch :: "block list \<Rightarrow> nat \<Rightarrow> (block \<Rightarrow> block) \<Rightarrow> block list" where
  "bridgeBlocks_patch tbl i f = map (\<lambda>b. if block_id b = i then f b else b) tbl"

definition bridgeBlocks_insert :: "block list \<Rightarrow> block \<Rightarrow> block list \<times> nat" where
  "bridgeBlocks_insert tbl doc = (tbl @ [doc\<lparr>block_id := length tbl\<rparr>], length tbl)"

text \<open>The index \<^verbatim>\<open>by_status\<close> at \<^verbatim>\<open>"ACTIVE"\<close>, \<^verbatim>\<open>by_day\<close> at a day, \<^verbatim>\<open>by_block\<close> at a block.\<close>

definition active_blocks :: "block list \<Rightarrow> block list" where
  "active_blocks tbl = filter (\<lambda>b. status b = ACTIVE) tbl"

definition blocks_by_day :: "block list \<Rightarrow> string \<Rightarrow> block list" where
  "blocks_by_day tbl d = filter (\<lambda>b. dayId b = d) tbl"

definition turns_by_block :: "turn list \<Rightarrow> nat \<Rightarrow> turn list" where
  "turns_by_block tbl b = filter (\<lambda>t. blockId t = b) tbl"

definition pause_patch :: "int \<Rightarrow> block \<Rightarrow> block" where
  "pause_patch now b = b\<lparr>status := PAUSED, updatedAt := now\<rparr>"

subsection \<open>Mutations\<close>

text \<open>\<^verbatim>\<open>create\<close>: every block read as ACTIVE is patched to PAUSED, then the new block is inserted.\<close>

definition create :: "hmlr_db \<Rightarrow> int \<Rightarrow> string \<Rightarrow> string \<Rightarrow> string list \<Rightarrow> nat option \<Rightarrow> hmlr_db \<times> nat" where
  "create db now dayIdArg topicLabelArg keywordsArg prevBlockIdArg =
     (let activeBlocks = active_blocks (bridgeBlocks db);
          tbl1 = foldl (\<lambda>t b. bridgeBlocks_patch t (block_id b) (pause_patch now))
                   (bridgeBlocks db) activeBlocks;
          (tbl2, newId) = bridgeBlocks_insert tbl1
             \<lparr> block_id = 0, dayId = dayIdArg, topicLabel = topicLabelArg, summary = None,
               block_keywords = keywordsArg, status = ACTIVE, prevBlockId = prevBlockIdArg,
               openLoops = [], decisionsMade = [], turnCount = 0,
               createdAt = now, updatedAt = now \<rparr>
      in (db\<lparr>bridgeBlocks := tbl2\<rparr>, newId))"

text \<open>
  \<^verbatim>\<open>updateStatus\<close>: when the new status is ACTIVE, every other block read as ACTIVE is
  paused first; then the target is patched.
\<close>

definition updateStatus :: "hmlr_db \<Rightarrow> int \<Rightarrow> nat \<Rightarrow> blockStatus \<Rightarrow> db_error + hmlr_db" where
  "updateStatus db now blockIdArg statusArg =
     (let tbl1 = (if statusArg = ACTIVE
                  then foldl (\<lambda>t b. if block_id b \<noteq> blockIdArg
                                     then bridgeBlocks_patch t (block_id b) (pause_patch now)
                                     else t)
                         (bridgeBlocks db) (active_blocks (bridgeBlocks db))
                  else bridgeBlocks db)
      in (case bridgeBlocks_get tbl1 blockIdArg of
            None \<Rightarrow> Inl NonexistentDocument
          | Some _ \<Rightarrow>
              Inr (db\<lparr>bridgeBlocks :=
                        bridgeBlocks_patch tbl1 blockIdArg
                          (\<lambda>b. b\<lparr>status := statusArg, updatedAt := now\<rparr>)\<rparr>)))"

text \<open>\<^verbatim>\<open>updateMetadata\<close>: each field that is supplied is written over the stored one.\<close>

definition updateMetadata ::
  "hmlr_db \<Rightarrow> int \<Rightarrow> nat \<Rightarrow> string option \<Rightarrow> string list option \<Rightarrow> string list option
     \<Rightarrow> string list option \<Rightarrow> db_error + hmlr_db" where
  "updateMetadata db now blockIdArg summaryArg keywordsArg openLoopsArg decisionsMadeArg =
     (case bridgeBlocks_get (bridgeBlocks db) blockIdArg of
        None \<Rightarrow> Inl NonexistentDocument
      | Some _ \<Rightarrow>
          Inr (db\<lparr>bridgeBlocks :=
                 bridgeBlocks_patch (bridgeBlocks db) blockIdArg
                   (\<lambda>b. b\<lparr> updatedAt := now,
                            summary := (case summaryArg of None \<Rightarrow> summary b | Some s \<Rightarrow> Some s),
                            block_keywords := (case keywordsArg of None \<Rightarrow> block_keywords b | Some k \<Rightarrow> k),
                            openLoops := (case openLoopsArg of None \<Rightarrow> openLoops b | Some l \<Rightarrow> l),
                            decisionsMade :=
                              (case decisionsMadeArg of None \<Rightarrow> decisionsMade b | Some d \<Rightarrow> d) \<rparr>)\<rparr>))"

text \<open>\<^verbatim>\<open>appendTurn\<close>: inserts the turn; if the block exists, bumps its count and \<open>updatedAt\<close>.\<close>

definition appendTurn ::
  "hmlr_db \<Rightarrow> int \<Rightarrow> nat \<Rightarrow> string option \<Rightarrow> string \<Rightarrow> string \<Rightarrow> string list option
     \<Rightarrow> string option \<Rightarrow> hmlr_db \<times> string" where
  "appendTurn db now blockIdArg turnIdArg userMessageArg aiResponseArg keywordsArg affectArg =
     (let newTurnId = (case turnIdArg of None \<Rightarrow> ''turn_'' @ show_int now | Some t \<Rightarrow> t);
          turns1 = turns db @
             [\<lparr> turn_id = length (turns db), blockId = blockIdArg, turnId = newTurnId,
                userMessage = userMessageArg, aiResponse = aiResponseArg,
                turn_keywords = keywordsArg, affect = affectArg, timestamp = now \<rparr>];
          blocks1 = (case bridgeBlocks_get (bridgeBlocks db) blockIdArg of
                       None \<Rightarrow> bridgeBlocks db
                     | Some blk \<Rightarrow>
                         bridgeBlocks_patch (bridgeBlocks db) blockIdArg
                           (\<lambda>b. b\<lparr>turnCount := turnCount blk + 1, updatedAt := now\<rparr>))
      in (db\<lparr>bridgeBlocks := blocks1, turns := turns1\<rparr>, newTurnId))"

text \<open>
  \<^verbatim>\<open>pauseWithSummary\<close>: nothing for an unknown block. Otherwise the stored summary is kept
  when it is a non-empty string; when it is absent or empty and the block has turns, one is
  built from the first and last user messages; the block is patched to PAUSED.
\<close>

definition heuristic_summary :: "turn list \<Rightarrow> string" where
  "heuristic_summary ts =
     (let firstTurn = hd ts; lastTurn = last ts
      in if length ts = 1
         then ''Discussion about: '' @ take 100 (userMessage firstTurn) @ ''...''
         else show_nat (length ts) @ '' exchanges. Started with: '' @ [CHR 0x22]
              @ take 50 (userMessage firstTurn) @ ''...'' @ [CHR 0x22] @ '' Ended with: ''
              @ [CHR 0x22] @ take 50 (userMessage lastTurn) @ ''...'' @ [CHR 0x22])"

definition pauseWithSummary :: "hmlr_db \<Rightarrow> int \<Rightarrow> nat \<Rightarrow> hmlr_db" where
  "pauseWithSummary db now blockIdArg =
     (case bridgeBlocks_get (bridgeBlocks db) blockIdArg of
        None \<Rightarrow> db
      | Some blk \<Rightarrow>
          (let ts = turns_by_block (turns db) blockIdArg;
               summary1 = (if (summary blk = None \<or> summary blk = Some []) \<and> ts \<noteq> []
                           then Some (heuristic_summary ts) else summary blk);
               summary2 = (case summary1 of
                             None \<Rightarrow> ''Block with '' @ show_nat (turnCount blk) @ '' turns''
                           | Some s \<Rightarrow> s)
           in db\<lparr>bridgeBlocks :=
                   bridgeBlocks_patch (bridgeBlocks db) blockIdArg
                     (\<lambda>b. b\<lparr>status := PAUSED, summary := Some summary2, updatedAt := now\<rparr>)\<rparr>))"

text \<open>
  \<^verbatim>\<open>updateMetadataFromResponse\<close>: nothing for an unknown block. Supplied keywords, topics
  (lower-cased), open loops and decisions are added to a \<^verbatim>\<open>Set\<close> of the stored list and the
  first 20 (10, 10) elements are stored; a supplied non-empty summary is written over.
\<close>

record response_metadata =
  md_affect :: "string option"
  md_topics :: "string list option"
  md_keywords :: "string list option"
  md_summary :: "string option"
  md_openLoops :: "string list option"
  md_decisionsMade :: "string list option"

definition merge_clamped :: "nat \<Rightarrow> string list \<Rightarrow> string list \<Rightarrow> string list" where
  "merge_clamped bound existing supplied = take bound (foldl set_add (new_Set existing) supplied)"

definition updateMetadataFromResponse :: "hmlr_db \<Rightarrow> int \<Rightarrow> nat \<Rightarrow> response_metadata \<Rightarrow> hmlr_db" where
  "updateMetadataFromResponse db now blockIdArg metadata =
     (case bridgeBlocks_get (bridgeBlocks db) blockIdArg of
        None \<Rightarrow> db
      | Some blk \<Rightarrow>
          (let keywords1 = (case md_keywords metadata of
                              None \<Rightarrow> None
                            | Some ks \<Rightarrow> Some (merge_clamped 20 (block_keywords blk) ks));
               keywords2 = (case md_topics metadata of
                              None \<Rightarrow> keywords1
                            | Some tps \<Rightarrow>
                                Some (merge_clamped 20
                                        (case keywords1 of None \<Rightarrow> block_keywords blk | Some k \<Rightarrow> k)
                                        (map toLowerCase tps)));
               summary1 = (case md_summary metadata of
                             None \<Rightarrow> None
                           | Some s \<Rightarrow> if s = [] then None else Some s);
               openLoops1 = (case md_openLoops metadata of
                               None \<Rightarrow> None
                             | Some ls \<Rightarrow> Some (merge_clamped 10 (openLoops blk) ls));
               decisions1 = (case md_decisionsMade metadata of
                               None \<Rightarrow> None
                             | Some ds \<Rightarrow> Some (merge_clamped 10 (decisionsMade blk) ds))
           in db\<lparr>bridgeBlocks :=
                   bridgeBlocks_patch (bridgeBlocks db) blockIdArg
                     (\<lambda>b. b\<lparr> updatedAt := now,
                              block_keywords := (case keywords2 of None \<Rightarrow> block_keywords b | Some k \<Rightarrow> k),
                              summary := (case summary1 of None \<Rightarrow> summary b | Some s \<Rightarrow> Some s),
                              openLoops := (case openLoops1 of None \<Rightarrow> openLoops b | Some l \<Rightarrow> l),
                              decisionsMade :=
                                (case decisions1 of None \<Rightarrow> decisionsMade b | Some d \<Rightarrow> d) \<rparr>)\<rparr>))"

subsection \<open>Sequences of block operations\<close>

datatype block_op =
    Create int string string "string list" "nat option"
  | UpdateStatus int nat blockStatus
  | PauseWithSummary int nat
  | AppendTurn int nat "string option" string string "string list option" "string option"
  | UpdateMetadata int nat "string option" "string list option" "string list option" "string list option"
  | UpdateMetadataFromResponse int nat response_metadata

text \<open>A mutation that throws leaves the database as it was.\<close>

fun block_step :: "hmlr_db \<Rightarrow> block_op \<Rightarrow> hmlr_db" where
  "block_step db (Create now d l ks p) = fst (create db now d l ks p)"
| "block_step db (UpdateStatus now i s) =
     (case updateStatus db now i s of Inl _ \<Rightarrow> db | Inr db' \<Rightarrow> db')"
| "block_step db (PauseWithSummary now i) = pauseWithSummary db now i"
| "block_step db (AppendTurn now i t u a ks af) = fst (appendTurn db now i t u a ks af)"
| "block_step db (UpdateMetadata now i s ks ls ds) =
     (case updateMetadata db now i s ks ls ds of Inl _ \<Rightarrow> db | Inr db' \<Rightarrow> db')"
| "block_step db (UpdateMetadataFromResponse now i m) = updateMetadataFromResponse db now i m"

definition block_run :: "block_op list \<Rightarrow> hmlr_db" where
  "block_run ops = foldl block_step empty_db ops"

text \<open>The ACTIVE blocks of a day, as \<^verbatim>\<open>getActive(dayId)\<close> returns them.\<close>

definition getActive :: "hmlr_db \<Rightarrow> string option \<Rightarrow> block list" where
  "getActive db dayIdArg =
     (let blocks = active_blocks (bridgeBlocks db)
      in case dayIdArg of
           None \<Rightarrow> blocks
         | Some d \<Rightarrow> if d = [] then blocks else filter (\<lambda>b. dayId b = d) blocks)"

definition block_ids_ok :: "block list \<Rightarrow> bool" where
  "block_ids_ok tbl = (map block_id tbl = [0..<length tbl])"

text \<open>The block that \<open>create\<close> inserts, under the id it is given.\<close>

definition created_block :: "nat \<Rightarrow> int \<Rightarrow> string \<Rightarrow> string \<Rightarrow> string list \<Rightarrow> nat option \<Rightarrow> block" where
  "created_block n now d l ks p =
     \<lparr> block_id = n, dayId = d, topicLabel = l, summary = None, block_keywords = ks,
       status = ACTIVE, prevBlockId = p, openLoops = [], decisionsMade = [], turnCount = 0,
       createdAt = now, updatedAt = now \<rparr>"

text \<open>The invariant of the block table: ids are positions, and at most one block is ACTIVE.\<close>

definition one_active :: "hmlr_db \<Rightarrow> bool" where
  "one_active db = (block_ids_ok (bridgeBlocks db) \<and> length (active_blocks (bridgeBlocks db)) \<le> 1)"

text \<open>A run of the block manager: a topic with two turns is paused and a second topic opened.\<close>

definition demo_block_ops :: "block_op list" where
  "demo_block_ops =
     [Create 1000 ''2025-01-15'' ''Contracts'' [''contract'', ''law''] None,
      AppendTurn 1100 0 None ''What is a contract?'' ''An agreement.'' None None,
      AppendTurn 1200 0 (Some ''turn_b'') ''And a tort?'' ''A civil wrong.'' None None,
      PauseWithSummary 1300 0,
      Create 1400 ''2025-01-15'' ''Cooking'' [''pasta''] (Some 0),
      UpdateStatus 1500 7 ACTIVE]"

text \<open>
  A deduplicated ordered set, as a list: every element once, at the place of its first
  occurrence.
\<close>

definition dedupe_ordered :: "'a list \<Rightarrow> 'a list" where
  "dedupe_ordered xs = rev (remdups (rev xs))"

text \<open>Metadata of a response: keywords with repetitions, a topic, a summary, open loops.\<close>

definition demo_metadata :: response_metadata where
  "demo_metadata =
     \<lparr> md_affect = None, md_topics = Some [''Italian''],
       md_keywords = Some [''sauce'', ''pasta'', ''Sauce'', ''sauce''],
       md_summary = Some ''Pasta sauces'', md_openLoops = Some [''buy basil'', ''buy basil''],
       md_decisionsMade = None \<rparr>"

section \<open>Eviction manager\<close>

text \<open>
  \<^verbatim>\<open>checkAndEvict\<close> with its helpers \<^verbatim>\<open>evictByTimeInternal\<close>, \<^verbatim>\<open>evictBySpaceInternal\<close> and
  \<^verbatim>\<open>updateTopicAffinityInternal\<close>. The helpers write to the table \<^verbatim>\<open>topicAffinity\<close> only;
  each calls \<^verbatim>\<open>Date.now()\<close> once, which is an argument here. Timestamps are integers
  (milliseconds); the average of an affinity row is their exact quotient.
\<close>

definition TIME_THRESHOLD_HOURS :: int where "TIME_THRESHOLD_HOURS = 24"
definition MAX_TIER2_TOKENS :: nat where "MAX_TIER2_TOKENS = 5000"
definition MAX_TIER2_TURNS :: nat where "MAX_TIER2_TURNS = 30"

text \<open>\<^verbatim>\<open>Math.ceil((turn.userMessage.length + turn.aiResponse.length) / 4)\<close>.\<close>

definition tokenEstimate :: "turn \<Rightarrow> nat" where
  "tokenEstimate t = nat \<lceil>real (length (userMessage t) + length (aiResponse t)) / 4\<rceil>"

definition updateTopicAffinityInternal ::
  "topicAffinityRow list \<Rightarrow> string \<Rightarrow> int \<Rightarrow> int \<Rightarrow> topicAffinityRow list" where
  "updateTopicAffinityInternal tbl topicArg addedTimestamp evictedTimestamp =
     (let topicLower = toLowerCase topicArg;
          timeInWindow = evictedTimestamp - addedTimestamp
      in case find (\<lambda>a. topic a = topicLower) tbl of
           Some existing \<Rightarrow>
             (let newTotal = totalTimeInWindow existing + timeInWindow;
                  newCount = evictionCount existing + 1
              in map (\<lambda>a. if affinity_id a = affinity_id existing
                            then a\<lparr> evictionCount := newCount, totalTimeInWindow := newTotal,
                                    avgTimeInWindow := real_of_int newTotal / real newCount \<rparr>
                            else a) tbl)
         | None \<Rightarrow>
             tbl @ [\<lparr> affinity_id = length tbl, topic = topicLower, evictionCount = 1,
                      totalTimeInWindow = timeInWindow,
                      avgTimeInWindow = real_of_int timeInWindow \<rparr>])"

text \<open>
  \<^verbatim>\<open>evictByTimeInternal\<close>: for each block of the day and each of its turns older than the
  threshold, the turn id is pushed and the affinity of the block's topic updated. The
  state of the two nested loops is the affinity table and the list of pushed ids.
\<close>

definition evictByTimeInternal :: "hmlr_db \<Rightarrow> int \<Rightarrow> string \<Rightarrow> hmlr_db \<times> string list" where
  "evictByTimeInternal db now dayIdArg =
     (let threshold = TIME_THRESHOLD_HOURS * 60 * 60 * 1000;
          blocks = blocks_by_day (bridgeBlocks db) dayIdArg;
          (aff, evictedTurnIds) =
            foldl (\<lambda>acc blk.
                     foldl (\<lambda>(aff, ids) t.
                              if now - timestamp t > threshold
                              then (updateTopicAffinityInternal aff (topicLabel blk) (timestamp t) now,
                                    ids @ [turnId t])
                              else (aff, ids))
                           acc (turns_by_block (turns db) (block_id blk)))
                  (topicAffinity db, []) blocks
      in (db\<lparr>topicAffinity := aff\<rparr>, evictedTurnIds))"

text \<open>
  \<^verbatim>\<open>evictBySpaceInternal\<close>: the turns of the day's blocks, each with its block's topic and
  its token estimate, are sorted by timestamp (the sort is stable); when there are more
  than \<open>MAX_TIER2_TURNS\<close>, the ids of the oldest in excess are pushed and the affinities
  updated. The token estimate of an entry is not read again.
\<close>

record space_entry =
  se_turnId :: string
  se_topicLabel :: string
  se_timestamp :: int
  se_tokenEstimate :: nat

definition day_entries :: "hmlr_db \<Rightarrow> string \<Rightarrow> space_entry list" where
  "day_entries db dayIdArg =
     concat (map (\<lambda>blk. map (\<lambda>t. \<lparr> se_turnId = turnId t, se_topicLabel = topicLabel blk,
                                     se_timestamp = timestamp t,
                                     se_tokenEstimate = tokenEstimate t \<rparr>)
                            (turns_by_block (turns db) (block_id blk)))
                 (blocks_by_day (bridgeBlocks db) dayIdArg))"

definition evictBySpaceInternal :: "hmlr_db \<Rightarrow> int \<Rightarrow> string \<Rightarrow> hmlr_db \<times> string list" where
  "evictBySpaceInternal db now dayIdArg =
     (let maxTurns = MAX_TIER2_TURNS;
          allTurns = sort_key se_timestamp (day_entries db dayIdArg);
          excess = int (length allTurns) - int maxTurns
      in if excess > 0
         then (let evicted = take (nat excess) allTurns;
                   aff = foldl (\<lambda>a e. updateTopicAffinityInternal a (se_topicLabel e) (se_timestamp e) now)
                           (topicAffinity db) evicted
               in (db\<lparr>topicAffinity := aff\<rparr>, map se_turnId evicted))
         else (db, []))"

record eviction_stats =
  timeEvicted :: nat
  spaceEvicted :: nat
  totalEvicted :: nat
  evictedTurnIds :: "string list"

text \<open>\<^verbatim>\<open>checkAndEvict\<close>: the time policy, then the space policy, then the union of the ids.\<close>

definition checkAndEvict :: "hmlr_db \<Rightarrow> int \<Rightarrow> int \<Rightarrow> string \<Rightarrow> hmlr_db \<times> eviction_stats" where
  "checkAndEvict db nowTime nowSpace dayIdArg =
     (let (db1, timeIds) = evictByTimeInternal db nowTime dayIdArg;
          (db2, spaceIds) = evictBySpaceInternal db1 nowSpace dayIdArg;
          allEvicted = new_Set (timeIds @ spaceIds)
      in (db2, \<lparr> timeEvicted = length timeIds, spaceEvicted = length spaceIds,
                  totalEvicted = length allEvicted, evictedTurnIds = allEvicted \<rparr>))"

subsection \<open>The stored turns of a day and their bounds\<close>

definition day_turns :: "hmlr_db \<Rightarrow> string \<Rightarrow> turn list" where
  "day_turns db dayIdArg =
     concat (map (\<lambda>blk. turns_by_block (turns db) (block_id blk))
                 (blocks_by_day (bridgeBlocks db) dayIdArg))"

definition day_token_sum :: "hmlr_db \<Rightarrow> string \<Rightarrow> nat" where
  "day_token_sum db dayIdArg = sum_list (map tokenEstimate (day_turns db dayIdArg))"

text \<open>
  A day with one topic and two turns of 12000 characters each, appended one and two
  seconds after the block was created.
\<close>

definition long_message :: string where
  "long_message = replicate 12000 CHR ''x''"

definition heavy_day_db :: hmlr_db where
  "heavy_day_db =
     \<lparr> bridgeBlocks =
         [\<lparr> block_id = 0, dayId = ''2025-01-15'', topicLabel = ''Contracts'', summary = None,
            block_keywords = [''contract''], status = ACTIVE, prevBlockId = None,
            openLoops = [], decisionsMade = [], turnCount = 2, createdAt = 1000, updatedAt = 3000 \<rparr>],
       turns =
         [\<lparr> turn_id = 0, blockId = 0, turnId = ''turn_2000'', userMessage = long_message,
            aiResponse = [], turn_keywords = None, affect = None, timestamp = 2000 \<rparr>,
          \<lparr> turn_id = 1, blockId = 0, turnId = ''turn_3000'', userMessage = long_message,
            aiResponse = [], turn_keywords = None, affect = None, timestamp = 3000 \<rparr>],
       topicAffinity = [] \<rparr>"

section \<open>Strings and regular expressions of the source\<close>

text \<open>
  Strings are lists of 8-bit characters, read as ASCII text. The character classes are
  those of a JavaScript regular expression without the \<^verbatim>\<open>u\<close> flag on ASCII: \<^verbatim>\<open>\w\<close> is
  \<open>[A-Za-z0-9_]\<close>, \<^verbatim>\<open>\s\<close> is tab, line feed, vertical tab, form feed, carriage return and
  space, and \<^verbatim>\<open>.\<close> is every character but line feed and carriage return. A byte above 127
  is no letter and no white space here. The flag \<^verbatim>\<open>i\<close> compares letters after
  \<open>lower_char\<close>.
\<close>

definition is_word_char :: "char \<Rightarrow> bool" where
  "is_word_char c =
     (c \<in> set ''abcdefghijklmnopqrstuvwxyzABCDEFGHIJKLMNOPQRSTUVWXYZ0123456789_'')"

definition is_space :: "char \<Rightarrow> bool" where
  "is_space c = (c \<in> set [CHR 0x09, CHR 0x0A, CHR 0x0B, CHR 0x0C, CHR 0x0D, CHR '' ''])"


text \<open>\<^verbatim>\<open>trim\<close>, \<^verbatim>\<open>trimEnd\<close> and \<^verbatim>\<open>join\<close>.\<close>

definition trimEnd :: "string \<Rightarrow> string" where
  "trimEnd s = rev (dropWhile is_space (rev s))"

definition trim :: "string \<Rightarrow> string" where
  "trim s = trimEnd (dropWhile is_space s)"

fun join :: "string \<Rightarrow> string list \<Rightarrow> string" where
  "join sep [] = []"
| "join sep [x] = x"
| "join sep (x # y # ys) = x @ sep @ join sep (y # ys)"

text \<open>
  \<^verbatim>\<open>s.split(/C+/)\<close> for a character class \<open>C\<close>: the pieces between the maximal runs of
  characters of \<open>C\<close>, with an empty piece before a leading and after a trailing run. The
  accumulator holds the current piece, reversed.
\<close>

function split_run :: "(char \<Rightarrow> bool) \<Rightarrow> string \<Rightarrow> string \<Rightarrow> string list" where
  "split_run C acc [] = [rev acc]"
| "split_run C acc (c # cs) =
     (if C c then rev acc # split_run C [] (dropWhile C cs) else split_run C (c # acc) cs)"
  by pat_completeness auto
termination
  by (relation "measure (\<lambda>(C, acc, s). length s)") (auto simp: le_imp_less_Suc length_dropWhile_le)

definition split_class :: "(char \<Rightarrow> bool) \<Rightarrow> string \<Rightarrow> string list" where
  "split_class C s = split_run C [] s"


text \<open>A literal under the flag \<^verbatim>\<open>i\<close>, at the start of a string and anywhere in it.\<close>

fun ci_prefix :: "string \<Rightarrow> string \<Rightarrow> bool" where
  "ci_prefix [] s = True"
| "ci_prefix (p # ps) [] = False"
| "ci_prefix (p # ps) (c # cs) = (if lower_char p = lower_char c then ci_prefix ps cs else False)"


text \<open>
  \<^verbatim>\<open>/\bP\b/i\<close> for a literal \<open>P\<close>: an occurrence of \<open>P\<close> with a word boundary on both sides. A
  boundary lies between two neighbours of which exactly one is a word character; the
  outside of the string counts as not a word character.
\<close>

definition word_boundary :: "char option \<Rightarrow> char option \<Rightarrow> bool" where
  "word_boundary a b =
     ((case a of None \<Rightarrow> False | Some x \<Rightarrow> is_word_char x)
        \<noteq> (case b of None \<Rightarrow> False | Some y \<Rightarrow> is_word_char y))"

definition head_option :: "string \<Rightarrow> char option" where
  "head_option s = (case s of [] \<Rightarrow> None | c # _ \<Rightarrow> Some c)"

definition word_phrase_at :: "string \<Rightarrow> char option \<Rightarrow> string \<Rightarrow> bool" where
  "word_phrase_at p prev s =
     (if ci_prefix p s
      then word_boundary prev (head_option s)
           \<and> word_boundary (if p = [] then prev else Some (s ! (length p - 1)))
                           (head_option (drop (length p) s))
      else False)"

fun word_phrase_from :: "string \<Rightarrow> char option \<Rightarrow> string \<Rightarrow> bool" where
  "word_phrase_from p prev [] = word_phrase_at p prev []"
| "word_phrase_from p prev (c # cs) =
     (if word_phrase_at p prev (c # cs) then True else word_phrase_from p (Some c) cs)"

definition matches_word_phrase :: "string \<Rightarrow> string \<Rightarrow> bool" where
  "matches_word_phrase p s = word_phrase_from p None s"

section \<open>Adaptive compressor: the compression decision\<close>

text \<open>
  \<^verbatim>\<open>detectExplicitReference\<close>, \<^verbatim>\<open>calculateSimpleDistance\<close> and \<^verbatim>\<open>decideCompression\<close>.
  Distances and hours are exact reals; \<^verbatim>\<open>Date.now()\<close> is the argument \<open>now\<close>.
\<close>

datatype CompressionLevel = NO_COMPRESSION | COMPRESS_PARTIAL | COMPRESS_ALL

record CompressionDecision =
  level :: CompressionLevel
  reason :: string
  semanticDistance :: real
  timeGapHours :: real
  hasExplicitReference :: bool
  keepVerbatimCount :: nat

definition VERY_DIFFERENT_THRESHOLD :: real where "VERY_DIFFERENT_THRESHOLD = 0.8"
definition SOMEWHAT_DIFFERENT_THRESHOLD :: real where "SOMEWHAT_DIFFERENT_THRESHOLD = 0.6"
definition LONG_GAP_HOURS :: real where "LONG_GAP_HOURS = 12"
definition MAX_VERBATIM_HARD_LIMIT :: nat where "MAX_VERBATIM_HARD_LIMIT = 15"
definition COMPRESS_ALL_KEEP :: nat where "COMPRESS_ALL_KEEP = 5"
definition COMPRESS_PARTIAL_KEEP :: nat where "COMPRESS_PARTIAL_KEEP = 10"

definition REFERENCE_PATTERNS :: "string list" where
  "REFERENCE_PATTERNS =
     [''we discussed'', ''you mentioned'', ''you said'', ''as I said'', ''earlier you'',
      ''previously'', ''going back to'']"

definition detectExplicitReference :: "string \<Rightarrow> bool" where
  "detectExplicitReference q = list_ex (\<lambda>pattern. matches_word_phrase pattern q) REFERENCE_PATTERNS"

text \<open>The words of more than three characters of a lower-cased query, as a \<^verbatim>\<open>Set\<close>.\<close>

definition distance_words :: "string \<Rightarrow> string list" where
  "distance_words q =
     new_Set (filter (\<lambda>w. length w > 3) (split_class (\<lambda>c. \<not> is_word_char c) (toLowerCase q)))"

definition calculateSimpleDistance :: "string \<Rightarrow> string \<Rightarrow> real" where
  "calculateSimpleDistance query1 query2 =
     (let words1 = distance_words query1;
          words2 = distance_words query2
      in if length words1 = 0 \<or> length words2 = 0 then 0.5
         else (let intersection = new_Set (filter (\<lambda>x. x \<in> set words2) words1);
                   union = new_Set (words1 @ words2)
               in 1 - real (length intersection) / real (length union)))"

text \<open>\<^verbatim>\<open>recentQueries.slice(-3)\<close>: the last three elements, or all when there are fewer.\<close>

definition slice_last3 :: "'a list \<Rightarrow> 'a list" where
  "slice_last3 xs = drop (length xs - 3) xs"

definition decideCompression :: "string \<Rightarrow> string list \<Rightarrow> int \<Rightarrow> int \<Rightarrow> CompressionDecision" where
  "decideCompression currentQuery recentQueries lastTurnTimestamp now =
     (if length recentQueries = 0
      then \<lparr> level = NO_COMPRESSION, reason = ''No recent turns to compress'',
             semanticDistance = 0, timeGapHours = 0, hasExplicitReference = False,
             keepVerbatimCount = 0 \<rparr>
      else if detectExplicitReference currentQuery
      then \<lparr> level = NO_COMPRESSION,
             reason = ''Explicit reference to previous conversation detected'',
             semanticDistance = 0, timeGapHours = 0, hasExplicitReference = True,
             keepVerbatimCount = length recentQueries \<rparr>
      else
        (let combinedRecent = join '' '' (slice_last3 recentQueries);
             distance = calculateSimpleDistance currentQuery combinedRecent;
             hours = real_of_int (now - lastTurnTimestamp) / (1000 * 60 * 60);
             (lvl, rsn, keep) =
               (if distance > VERY_DIFFERENT_THRESHOLD
                then (if hours > LONG_GAP_HOURS
                      then (COMPRESS_ALL, ''Very different topic + long time gap'', COMPRESS_ALL_KEEP)
                      else (COMPRESS_PARTIAL, ''Very different topic'', COMPRESS_PARTIAL_KEEP))
                else if distance > SOMEWHAT_DIFFERENT_THRESHOLD
                then (if hours > LONG_GAP_HOURS
                      then (COMPRESS_PARTIAL, ''Somewhat different topic + long time gap'',
                            COMPRESS_PARTIAL_KEEP)
                      else (NO_COMPRESSION, ''Similar enough topic and recent'', length recentQueries))
                else (NO_COMPRESSION, ''Similar topic'', length recentQueries))
         in \<lparr> level = lvl, reason = rsn, semanticDistance = distance, timeGapHours = hours,
              hasExplicitReference = False,
              keepVerbatimCount = min keep MAX_VERBATIM_HARD_LIMIT \<rparr>))"

section \<open>Tabula Rasa: topic-shift detection\<close>



subsection \<open>The shift phrases\<close>

















subsection \<open>The continuation phrases\<close>


subsection \<open>Topics of a query\<close>


text \<open>\<^verbatim>\<open>.replace(/[^\w\s]/g, " ")\<close>.\<close>

definition blank_punctuation :: "string \<Rightarrow> string" where
  "blank_punctuation s = map (\<lambda>c. if is_word_char c \<or> is_space c then c else CHR '' '') s"


subsection \<open>\<^verbatim>\<open>checkForShift\<close>\<close>



section \<open>Chunking engine\<close>

text \<open>
  \<^verbatim>\<open>extractKeywords\<close>, \<^verbatim>\<open>estimateTokenCount\<close>, \<^verbatim>\<open>splitIntoSentences\<close>,
  \<^verbatim>\<open>splitIntoParagraphs\<close>, \<^verbatim>\<open>generateChunkId\<close> and \<^verbatim>\<open>chunkText\<close>.
\<close>

datatype chunkType = Sentence | Paragraph

record chunk =
  chunkId :: string
  chunk_type :: chunkType
  textVerbatim :: string
  lexicalFilters :: "string list"
  parentChunkId :: "string option"
  chunk_turnId :: string
  tokenCount :: nat

definition STOP_WORDS :: "string list" where
  "STOP_WORDS =
     [''the'', ''a'', ''an'', ''is'', ''are'', ''was'', ''were'', ''and'', ''or'', ''but'',
      ''in'', ''on'', ''at'', ''to'', ''for'', ''of'', ''with'', ''by'', ''from'', ''as'',
      ''this'', ''that'', ''these'', ''those'', ''it'', ''its'', ''be'', ''been'', ''being'',
      ''have'', ''has'', ''had'', ''do'', ''does'', ''did'', ''will'', ''would'', ''should'',
      ''could'', ''may'', ''might'', ''can'', ''my'', ''your'', ''his'', ''her'', ''their'',
      ''our'', ''i'', ''you'', ''he'', ''she'', ''we'', ''they'', ''what'', ''which'', ''who'',
      ''when'', ''where'', ''why'', ''how'', ''all'', ''each'', ''every'', ''both'', ''few'',
      ''more'', ''most'', ''other'', ''some'', ''such'', ''no'', ''nor'', ''not'', ''only'']"

text \<open>The filter \<^verbatim>\<open>arr.indexOf(w) === i\<close> keeps the first occurrence of every word.\<close>

definition extractKeywords :: "string \<Rightarrow> string list" where
  "extractKeywords s =
     take 20 (new_Set (filter (\<lambda>w. length w > 2 \<and> w \<notin> set STOP_WORDS)
                         (split_class is_space (blank_punctuation (toLowerCase s)))))"

definition estimateTokenCount :: "string \<Rightarrow> nat" where
  "estimateTokenCount s = nat \<lceil>real (length s) / 4\<rceil>"

subsection \<open>Sentences\<close>

text \<open>
  \<^verbatim>\<open>text.split(/(?<=[.!?])\s+/)\<close>: a separator is a maximal run of white space that follows
  a terminator. The accumulator is the current piece, reversed, so its head is the
  character before the position that is tried; at the start of a piece that character is
  white space or missing, and no separator starts there.
\<close>

function split_sentences_run :: "string \<Rightarrow> string \<Rightarrow> string list" where
  "split_sentences_run acc [] = [rev acc]"
| "split_sentences_run acc (c # cs) =
     (if is_space c \<and> (case acc of [] \<Rightarrow> False | a # _ \<Rightarrow> a \<in> set ''.!?'')
      then rev acc # split_sentences_run [] (dropWhile is_space cs)
      else split_sentences_run (c # acc) cs)"
  by pat_completeness auto
termination
  by (relation "measure (\<lambda>(acc, s). length s)") (auto simp: le_imp_less_Suc length_dropWhile_le)

definition splitIntoSentences :: "string \<Rightarrow> string list" where
  "splitIntoSentences s = filter (\<lambda>x. length x > 0) (map trim (split_sentences_run [] s))"

subsection \<open>Paragraphs\<close>

text \<open>
  \<^verbatim>\<open>text.split(/\n\s*\n/)\<close>: at a line feed the separator extends over the following white
  space up to its last line feed; \<open>para_sep_len\<close> is the number of characters after the
  first line feed that it takes, if the white space holds a line feed at all.
\<close>

definition para_sep_len :: "string \<Rightarrow> nat option" where
  "para_sep_len rest =
     (let run = takeWhile is_space rest
      in if CHR 0x0A \<in> set run
         then Some (length run - length (takeWhile (\<lambda>c. c \<noteq> CHR 0x0A) (rev run)))
         else None)"

function split_paragraphs_run :: "string \<Rightarrow> string \<Rightarrow> string list" where
  "split_paragraphs_run acc [] = [rev acc]"
| "split_paragraphs_run acc (c # cs) =
     (if c = CHR 0x0A
      then (case para_sep_len cs of
              Some n \<Rightarrow> rev acc # split_paragraphs_run [] (drop n cs)
            | None \<Rightarrow> split_paragraphs_run (c # acc) cs)
      else split_paragraphs_run (c # acc) cs)"
  by pat_completeness auto
termination
  by (relation "measure (\<lambda>(acc, s). length s)") auto

definition splitIntoParagraphs :: "string \<Rightarrow> string list" where
  "splitIntoParagraphs s =
     (let paragraphs = filter (\<lambda>p. length p > 0) (map trim (split_paragraphs_run [] s))
      in if length paragraphs = 0 \<and> length (trim s) > 0 then [trim s] else paragraphs)"

subsection \<open>Chunks\<close>

text \<open>
  \<^verbatim>\<open>generateChunkId\<close> reads the clock and draws a random suffix. Both come from an oracle
  \<open>gen\<close>: its value at \<open>n\<close> is what the \<open>n\<close>-th call of one \<^verbatim>\<open>chunkText\<close> reads and draws.
\<close>

definition generateChunkId :: "chunkType \<Rightarrow> nat \<Rightarrow> int \<times> string \<Rightarrow> string" where
  "generateChunkId ty idx drawn =
     (case ty of Sentence \<Rightarrow> ''sent'' | Paragraph \<Rightarrow> ''para'')
       @ ''_'' @ show_int (fst drawn) @ ''_'' @ show_nat idx @ ''_'' @ snd drawn"

text \<open>
  The inner loop over the sentences of one paragraph; \<open>sentenceIndex\<close> runs on across
  paragraphs, \<open>calls\<close> counts the ids generated so far.
\<close>

fun chunk_sentences ::
  "(nat \<Rightarrow> int \<times> string) \<Rightarrow> string \<Rightarrow> string \<Rightarrow> nat \<Rightarrow> nat \<Rightarrow> string list \<Rightarrow> chunk list" where
  "chunk_sentences gen turnIdArg paragraphId calls sentenceIndex [] = []"
| "chunk_sentences gen turnIdArg paragraphId calls sentenceIndex (sentenceText # rest) =
     \<lparr> chunkId = generateChunkId Sentence sentenceIndex (gen calls), chunk_type = Sentence,
       textVerbatim = sentenceText, lexicalFilters = extractKeywords sentenceText,
       parentChunkId = Some paragraphId, chunk_turnId = turnIdArg,
       tokenCount = estimateTokenCount sentenceText \<rparr>
     # chunk_sentences gen turnIdArg paragraphId (Suc calls) (Suc sentenceIndex) rest"

fun chunk_paragraphs ::
  "(nat \<Rightarrow> int \<times> string) \<Rightarrow> string \<Rightarrow> nat \<Rightarrow> nat \<Rightarrow> nat \<Rightarrow> string list \<Rightarrow> chunk list" where
  "chunk_paragraphs gen turnIdArg calls pIndex sentenceIndex [] = []"
| "chunk_paragraphs gen turnIdArg calls pIndex sentenceIndex (paragraphText # rest) =
     (let paragraphId = generateChunkId Paragraph pIndex (gen calls);
          sentenceTexts = splitIntoSentences paragraphText
      in \<lparr> chunkId = paragraphId, chunk_type = Paragraph, textVerbatim = paragraphText,
           lexicalFilters = extractKeywords paragraphText, parentChunkId = None,
           chunk_turnId = turnIdArg, tokenCount = estimateTokenCount paragraphText \<rparr>
         # chunk_sentences gen turnIdArg paragraphId (Suc calls) sentenceIndex sentenceTexts
         @ chunk_paragraphs gen turnIdArg (Suc calls + length sentenceTexts) (Suc pIndex)
             (sentenceIndex + length sentenceTexts) rest)"

definition chunkText :: "string \<Rightarrow> string \<Rightarrow> (nat \<Rightarrow> int \<times> string) \<Rightarrow> chunk list" where
  "chunkText s turnIdArg gen = chunk_paragraphs gen turnIdArg 0 0 0 (splitIntoParagraphs s)"

subsection \<open>Reading a chunk list back\<close>

text \<open>The texts of the paragraph chunks, in order.\<close>

definition paragraph_texts :: "chunk list \<Rightarrow> string list" where
  "paragraph_texts cs = map textVerbatim (filter (\<lambda>c. chunk_type c = Paragraph) cs)"

text \<open>
  Every paragraph chunk with the sentence chunks that follow it up to the next paragraph
  chunk.
\<close>

function paragraph_groups :: "chunk list \<Rightarrow> (chunk \<times> chunk list) list" where
  "paragraph_groups [] = []"
| "paragraph_groups (c # cs) =
     (if chunk_type c = Paragraph
      then (c, takeWhile (\<lambda>x. chunk_type x = Sentence) cs)
           # paragraph_groups (dropWhile (\<lambda>x. chunk_type x = Sentence) cs)
      else paragraph_groups cs)"
  by pat_completeness auto
termination
  by (relation "measure length") (auto simp: le_imp_less_Suc length_dropWhile_le)

text \<open>
  White-space normalisation: the words of a text, that is its maximal runs of characters
  that are not white space. Two texts are equal up to white-space normalisation when they
  have the same words.
\<close>

fun words_run :: "string \<Rightarrow> string \<Rightarrow> string list" where
  "words_run acc [] = (if acc = [] then [] else [rev acc])"
| "words_run acc (c # cs) =
     (if is_space c
      then (if acc = [] then words_run [] cs else rev acc # words_run [] cs)
      else words_run (c # acc) cs)"

definition ws_words :: "string \<Rightarrow> string list" where
  "ws_words s = words_run [] s"

definition strip_ws :: "string \<Rightarrow> string" where
  "strip_ws s = filter (\<lambda>c. \<not> is_space c) s"

definition chunk_oracle :: "nat \<Rightarrow> int \<times> string" where
  "chunk_oracle n = (1736899200000 + int n, ''k3x9qa'')"

text \<open>
  What holds of a paragraph chunk and the sentence chunks that follow it: they are
  sentences of that parent, and their texts give the paragraph back up to white space.
\<close>

definition group_ok :: "chunk \<times> chunk list \<Rightarrow> bool" where
  "group_ok g =
     (case g of (p, ss) \<Rightarrow>
        chunk_type p = Paragraph
      \<and> list_all (\<lambda>c. chunk_type c = Sentence \<and> parentChunkId c = Some (chunkId p)) ss
      \<and> ws_words (join '' '' (map textVerbatim ss)) = ws_words (textVerbatim p)
      \<and> strip_ws (concat (map textVerbatim ss)) = strip_ws (textVerbatim p))"

text \<open>Two paragraphs, the first of two sentences, with irregular white space.\<close>

definition two_paragraph_text :: string where
  "two_paragraph_text = ''Hi there.  Bye!'' @ [CHR 0x0A, CHR '' '', CHR 0x0A, CHR 0x0A] @ '' Ok''"

section \<open>Hydrator: token budget allocation\<close>

text \<open>
  \<^verbatim>\<open>allocateTokenBudget(maxTokens = 8000, systemTokens = 500, taskTokens = 500)\<close> of the
  context hydrator, on JavaScript numbers. An omitted argument (\<open>None\<close>) takes the default of
  the signature. The factors are the doubles nearest to \<open>0.50\<close>, \<open>0.30\<close> and \<open>0.10\<close>; the
  subtractions, the products and the sum \<open>total\<close>, added from left to right, round.
\<close>

record token_budget =
  system :: fp
  tasks :: fp
  bridgeBlock :: fp
  memories :: fp
  facts :: fp
  profile :: fp
  total :: fp

definition allocateTokenBudget :: "fp option \<Rightarrow> fp option \<Rightarrow> fp option \<Rightarrow> token_budget" where
  "allocateTokenBudget maxTokensArg systemTokensArg taskTokensArg =
     (let maxTokens = (case maxTokensArg of None \<Rightarrow> num_lit 8000 | Some b \<Rightarrow> b);
          systemTokens = (case systemTokensArg of None \<Rightarrow> num_lit 500 | Some s \<Rightarrow> s);
          taskTokens = (case taskTokensArg of None \<Rightarrow> num_lit 500 | Some t \<Rightarrow> t);
          remainingAfterFixed = fsub (fsub maxTokens systemTokens) taskTokens;
          bridgeBlock = ffloor (fmul remainingAfterFixed (num_lit 0.50));
          memories = ffloor (fmul remainingAfterFixed (num_lit 0.30));
          facts = ffloor (fmul remainingAfterFixed (num_lit 0.10));
          profile = ffloor (fmul remainingAfterFixed (num_lit 0.10))
      in \<lparr> system = systemTokens, tasks = taskTokens, bridgeBlock = bridgeBlock,
           memories = memories, facts = facts, profile = profile,
           total = fadd (fadd (fadd (fadd (fadd systemTokens taskTokens) bridgeBlock) memories) facts)
                     profile \<rparr>)"

section \<open>Adaptive compressor: cosine similarity\<close>







section \<open>JavaScript numbers: properties of rounding\<close>

lemma pow2_pos [simp]: "0 < pow2 e"
  by (simp add: pow2_def)

lemma pow2_nonneg [simp]: "0 \<le> pow2 e"
  by (simp add: pow2_def)

lemma pow2_neq0 [simp]: "pow2 e \<noteq> 0"
  by (simp add: pow2_def)

lemma pow2_not_neg [simp]: "\<not> pow2 e < 0"
  by (simp add: not_less)

lemma pow2_not_le0 [simp]: "\<not> pow2 e \<le> 0"
  by (simp add: not_le)

lemma pow2_add: "pow2 (a + b) = pow2 a * pow2 b"
  by (simp add: pow2_def power_int_add)

lemma pow2_mono: "a \<le> b \<Longrightarrow> pow2 a \<le> pow2 b"
  by (simp add: pow2_def power_int_increasing)

lemma pow2_strict_mono: "a < b \<Longrightarrow> pow2 a < pow2 b"
  by (simp add: pow2_def power_int_strict_increasing)

lemma pow2_nat: "0 \<le> e \<Longrightarrow> pow2 e = of_int (2 ^ nat e)"
  by (simp add: pow2_def power_int_def)

lemma pow2_half: "pow2 e / 2 = pow2 (e - 1)"
  using pow2_add [of "e - 1" 1] by (simp add: pow2_def)

lemma round_even_error: "\<bar>of_int (round_even r) - r\<bar> \<le> 1 / 2"
proof -
  have f: "of_int \<lfloor>r\<rfloor> \<le> r" "r < of_int \<lfloor>r\<rfloor> + 1" by linarith+
  show ?thesis
  proof (cases "r - of_int \<lfloor>r\<rfloor> < 1 / 2")
    case True
    then have "round_even r = \<lfloor>r\<rfloor>" by (simp add: round_even_def)
    with f True show ?thesis by auto
  next
    case False
    then have "round_even r = \<lfloor>r\<rfloor> \<or> round_even r = \<lfloor>r\<rfloor> + 1"
      by (simp add: round_even_def Let_def)
    moreover have "r - of_int \<lfloor>r\<rfloor> = 1 / 2" if "round_even r = \<lfloor>r\<rfloor>"
      using that False by (simp add: round_even_def Let_def split: if_splits)
    ultimately show ?thesis using f False by auto
  qed
qed

lemma round_even_of_int [simp]: "round_even (of_int n) = n"
  by (simp add: round_even_def)

lemma round_even_near: "\<bar>r - of_int n\<bar> < 1 / 2 \<Longrightarrow> round_even r = n"
proof -
  assume a: "\<bar>r - of_int n\<bar> < 1 / 2"
  have "\<bar>of_int (round_even r) - of_int n :: real\<bar> < 1"
    using round_even_error [of r] a by linarith
  then have "\<bar>round_even r - n\<bar> < 1"
    by (metis of_int_diff of_int_abs of_int_less_1_iff)
  then show ?thesis by simp
qed


lemma find_upto_Some:
  "find P [a..b] = Some e \<Longrightarrow> a \<le> e \<and> e \<le> b \<and> P e \<and> (\<forall>i. a \<le> i \<and> i < e \<longrightarrow> \<not> P i)"
proof (induction a b rule: upto.induct)
  case (1 i j)
  show ?case
  proof (cases "i \<le> j")
    case False
    with 1(2) show ?thesis by (simp add: upto.simps)
  next
    case True
    show ?thesis
    proof (cases "P i")
      case True
      with \<open>i \<le> j\<close> 1(2) show ?thesis by (subst (asm) upto.simps) auto
    next
      case False
      with \<open>i \<le> j\<close> 1(2) have "find P [i + 1..j] = Some e" by (subst (asm) upto.simps) simp
      from 1(1) [OF \<open>i \<le> j\<close> this]
      have ih: "i + 1 \<le> e" "e \<le> j" "P e" "\<forall>k. i + 1 \<le> k \<and> k < e \<longrightarrow> \<not> P k" by auto
      have "\<not> P k" if "i \<le> k" "k < e" for k
      proof (cases "k = i")
        case True with False show ?thesis by simp
      next
        case False with that ih(4) show ?thesis by auto
      qed
      with ih show ?thesis by auto
    qed
  qed
qed

lemma find_upto_None:
  "find P [a..b] = None \<Longrightarrow> a \<le> i \<Longrightarrow> i \<le> b \<Longrightarrow> \<not> P i"
  by (simp add: find_None_iff)

lemma find_upto_SomeI:
  assumes "a \<le> e" "e \<le> b" "P e" "\<And>i. a \<le> i \<Longrightarrow> i < e \<Longrightarrow> \<not> P i"
  shows "find P [a..b] = Some e"
proof (cases "find P [a..b]")
  case None
  from find_upto_None [OF None assms(1,2)] assms(3) show ?thesis by simp
next
  case (Some e')
  from find_upto_Some [OF Some]
  have e': "a \<le> e'" "e' \<le> b" "P e'" "\<forall>i. a \<le> i \<and> i < e' \<longrightarrow> \<not> P i" by auto
  have "\<not> e' < e" using assms(4) [of e'] e' by auto
  moreover have "\<not> e < e'" using e'(4) assms(1,3) by auto
  ultimately have "e' = e" by simp
  with Some show ?thesis by simp
qed

lemma expo_cases:
  "(expo x = 972 \<and> (\<forall>i. - 1074 \<le> i \<and> i \<le> 971 \<longrightarrow> \<not> \<bar>x\<bar> < pow2 (i + 53)))
   \<or> (- 1074 \<le> expo x \<and> expo x \<le> 971 \<and> \<bar>x\<bar> < pow2 (expo x + 53)
        \<and> (\<forall>i. - 1074 \<le> i \<and> i < expo x \<longrightarrow> \<not> \<bar>x\<bar> < pow2 (i + 53)))"
proof (cases "find (\<lambda>e. \<bar>x\<bar> < pow2 (e + 53)) [- 1074..971]")
  case None
  have "expo x = 972" unfolding expo_def None by (simp only: option.case)
  moreover have "\<forall>i. - 1074 \<le> i \<and> i \<le> 971 \<longrightarrow> \<not> \<bar>x\<bar> < pow2 (i + 53)"
    using find_upto_None [OF None] by blast
  ultimately show ?thesis by blast
next
  case (Some e)
  have "expo x = e" unfolding expo_def Some by (simp only: option.case)
  with find_upto_Some [OF Some] show ?thesis by blast
qed

lemma expo_eq:
  assumes "- 1074 \<le> e" "e \<le> 971" "\<bar>x\<bar> < pow2 (e + 53)" "e = - 1074 \<or> pow2 (e + 52) \<le> \<bar>x\<bar>"
  shows "expo x = e"
proof -
  have lo: "\<not> \<bar>x\<bar> < pow2 (i + 53)" if "- 1074 \<le> i" "i < e" for i
  proof -
    from that assms(4) have "pow2 (e + 52) \<le> \<bar>x\<bar>" by auto
    moreover have "pow2 (i + 53) \<le> pow2 (e + 52)" using that by (intro pow2_mono) simp
    ultimately show ?thesis by linarith
  qed
  from expo_cases [of x] show ?thesis
  proof
    assume "expo x = 972 \<and> (\<forall>i. - 1074 \<le> i \<and> i \<le> 971 \<longrightarrow> \<not> \<bar>x\<bar> < pow2 (i + 53))"
    with assms(1,2,3) show ?thesis by blast
  next
    assume a: "- 1074 \<le> expo x \<and> expo x \<le> 971 \<and> \<bar>x\<bar> < pow2 (expo x + 53)
        \<and> (\<forall>i. - 1074 \<le> i \<and> i < expo x \<longrightarrow> \<not> \<bar>x\<bar> < pow2 (i + 53))"
    have "\<not> expo x < e" using lo [of "expo x"] a by blast
    moreover have "\<not> e < expo x" using a assms(1,3) by blast
    ultimately show ?thesis by simp
  qed
qed


lemma expo_upper:
  assumes "- 1074 \<le> E" "E \<le> 971" "\<bar>x\<bar> < pow2 (E + 53)"
  shows "expo x \<le> E"
  using expo_cases [of x] assms by (meson not_le)

lemma expo_strict:
  assumes "\<bar>x\<bar> < pow2 1024"
  shows "\<bar>x\<bar> < pow2 (expo x + 53)"
proof -
  have "\<not> (\<forall>i. - 1074 \<le> i \<and> i \<le> 971 \<longrightarrow> \<not> \<bar>x\<bar> < pow2 (i + 53))"
    using assms by (auto intro!: exI [of _ 971])
  with expo_cases [of x] show ?thesis by blast
qed


lemma fl_eval:
  assumes "- 1074 \<le> e" "e \<le> 971" "\<bar>x\<bar> < pow2 (e + 53)" "e = - 1074 \<or> pow2 (e + 52) \<le> \<bar>x\<bar>"
    and "round_even (x / pow2 e) = m" "\<bar>of_int m * pow2 e\<bar> < pow2 1024"
  shows "fl x = Fin (of_int m * pow2 e)"
proof -
  have e: "expo x = e" by (rule expo_eq [OF assms(1-4)])
  from assms(6) have "\<not> pow2 1024 \<le> of_int m * pow2 e" "\<not> of_int m * pow2 e \<le> - pow2 1024"
    by linarith+
  then show ?thesis by (simp add: fl_def Let_def e assms(5))
qed

lemma fl_approx:
  assumes "\<bar>x\<bar> < pow2 1023"
  shows "\<exists>m. fl x = Fin (of_int m * pow2 (expo x)) \<and> \<bar>of_int m * pow2 (expo x) - x\<bar> \<le> pow2 (expo x) / 2"
proof -
  let ?e = "expo x"
  let ?m = "round_even (x / pow2 ?e)"
  have "\<bar>of_int ?m - x / pow2 ?e\<bar> \<le> 1 / 2" by (rule round_even_error)
  then have "\<bar>of_int ?m - x / pow2 ?e\<bar> * pow2 ?e \<le> 1 / 2 * pow2 ?e"
    by (intro mult_right_mono) simp_all
  moreover have "\<bar>of_int ?m - x / pow2 ?e\<bar> * pow2 ?e = \<bar>of_int ?m * pow2 ?e - x\<bar>"
  proof -
    have "\<bar>of_int ?m - x / pow2 ?e\<bar> * pow2 ?e = \<bar>(of_int ?m - x / pow2 ?e) * pow2 ?e\<bar>"
      by (simp add: abs_mult)
    also have "(of_int ?m - x / pow2 ?e) * pow2 ?e = of_int ?m * pow2 ?e - x"
      by (simp add: algebra_simps)
    finally show ?thesis .
  qed
  ultimately have err: "\<bar>of_int ?m * pow2 ?e - x\<bar> \<le> pow2 ?e / 2" by simp
  have "expo x \<le> 970" using assms by (intro expo_upper) simp_all
  then have "pow2 ?e \<le> pow2 970" by (rule pow2_mono)
  moreover have "pow2 970 + pow2 1023 < pow2 1024"
    using pow2_add [of 1023 1] pow2_strict_mono [of 970 1023] by (simp add: pow2_def)
  ultimately have "\<bar>of_int ?m * pow2 ?e\<bar> < pow2 1024" using err assms pow2_pos [of ?e] by linarith
  then have "\<not> pow2 1024 \<le> of_int ?m * pow2 ?e" "\<not> of_int ?m * pow2 ?e \<le> - pow2 1024"
    by linarith+
  then have "fl x = Fin (of_int ?m * pow2 ?e)" by (simp add: fl_def Let_def)
  with err show ?thesis by blast
qed

lemma fl_exact:
  assumes "x = of_int n * pow2 k" "expo x \<le> k" "\<bar>x\<bar> < pow2 1024"
  shows "fl x = Fin x"
proof -
  let ?e = "expo x"
  have "pow2 k = pow2 (k - ?e) * pow2 ?e" using pow2_add [of "k - ?e" ?e] by simp
  moreover have "pow2 (k - ?e) = of_int (2 ^ nat (k - ?e))" using assms(2) by (intro pow2_nat) simp
  ultimately have "x = of_int (n * 2 ^ nat (k - ?e)) * pow2 ?e"
    using assms(1) by (simp only: of_int_mult mult.assoc)
  then have "x / pow2 ?e = of_int (n * 2 ^ nat (k - ?e)) * pow2 ?e / pow2 ?e" by simp
  then have "x / pow2 ?e = of_int (n * 2 ^ nat (k - ?e))"
    by (simp only: nonzero_mult_div_cancel_right [OF pow2_neq0])
  then have "round_even (x / pow2 ?e) = n * 2 ^ nat (k - ?e)" by (simp only: round_even_of_int)
  moreover have "of_int (n * 2 ^ nat (k - ?e)) * pow2 ?e = x"
    using \<open>x / pow2 ?e = of_int (n * 2 ^ nat (k - ?e))\<close> pow2_pos [of ?e]
    by (metis nonzero_divide_eq_eq less_numeral_extra(3))
  ultimately have "of_int (round_even (x / pow2 ?e)) * pow2 ?e = x" by simp
  moreover have "\<not> pow2 1024 \<le> x" "\<not> x \<le> - pow2 1024" using assms(3) by linarith+
  ultimately show ?thesis by (simp add: fl_def Let_def)
qed

lemma fl_int:
  assumes "\<bar>n\<bar> < 2 ^ 53"
  shows "fl (of_int n) = Fin (of_int n)"
proof (rule fl_exact [where n = n and k = 0])
  show "real_of_int n = of_int n * pow2 0" by (simp add: pow2_def)
  have b: "\<bar>real_of_int n\<bar> < pow2 53"
  proof -
    have "real_of_int \<bar>n\<bar> < real_of_int (2 ^ 53)" using assms by (simp only: of_int_less_iff)
    then show ?thesis by (simp add: pow2_def)
  qed
  then show "expo (real_of_int n) \<le> 0" by (intro expo_upper) simp_all
  show "\<bar>real_of_int n\<bar> < pow2 1024" using b pow2_strict_mono [of 53 1024] by simp
qed

lemma fl_0 [simp]: "fl 0 = Fin 0"
  using fl_int [of 0] by simp



lemma fl_numeral: "(numeral n :: int) < 2 ^ 53 \<Longrightarrow> fl (numeral n) = Fin (numeral n)"
  using fl_int [of "numeral n"] by simp



lemma fadd_int:
  "\<bar>a + b\<bar> < 2 ^ 53 \<Longrightarrow> fadd (Fin (of_int a)) (Fin (of_int b)) = Fin (of_int (a + b))"
  using fl_int [of "a + b"] by simp

lemma fsub_int:
  "\<bar>a - b\<bar> < 2 ^ 53 \<Longrightarrow> fsub (Fin (of_int a)) (Fin (of_int b)) = Fin (of_int (a - b))"
  using fl_int [of "a - b"] by (simp add: fsub_def)


section \<open>Fact store: properties\<close>

lemma ids_ok_Nil: "ids_ok []"
  by (simp add: ids_ok_def)

lemma ids_ok_lt: "ids_ok tbl \<Longrightarrow> r \<in> set tbl \<Longrightarrow> fact_id r < length tbl"
proof -
  assume a: "ids_ok tbl" and r: "r \<in> set tbl"
  from r have "fact_id r \<in> set (map fact_id tbl)" by simp
  with a show ?thesis by (simp add: ids_ok_def)
qed

lemma ids_ok_inj: "ids_ok tbl \<Longrightarrow> r \<in> set tbl \<Longrightarrow> r' \<in> set tbl \<Longrightarrow> fact_id r = fact_id r' \<Longrightarrow> r = r'"
proof -
  assume a: "ids_ok tbl" and r: "r \<in> set tbl" "r' \<in> set tbl" and e: "fact_id r = fact_id r'"
  from a have "distinct (map fact_id tbl)" by (simp add: ids_ok_def)
  then have "inj_on fact_id (set tbl)" by (rule distinct_map [THEN iffD1, THEN conjunct2])
  with r e show ?thesis by (auto dest: inj_onD)
qed

lemma patch_keeps_ids: "map fact_id (facts_db_patch_supersededBy tbl i n) = map fact_id tbl"
  by (induction tbl) (simp_all add: facts_db_patch_supersededBy_def)

lemma supersede_existing_map:
  "supersede_existing tbl es n =
     map (\<lambda>r. if fact_id r \<in> fact_id ` {e \<in> set es. supersededBy e = None}
               then r\<lparr>supersededBy := Some n\<rparr> else r) tbl"
proof (induction es arbitrary: tbl)
  case Nil
  then show ?case by (simp add: supersede_existing_def)
next
  case (Cons e es)
  have step: "supersede_existing tbl (e # es) n
      = supersede_existing (if supersededBy e = None then facts_db_patch_supersededBy tbl (fact_id e) n else tbl) es n"
    by (simp add: supersede_existing_def)
  show ?case
    unfolding step Cons.IH
    by (auto simp: facts_db_patch_supersededBy_def)
qed

lemma store_char:
  assumes "ids_ok tbl"
  shows "store tbl now args =
     (map (\<lambda>r. if key r = arg_key args \<and> supersededBy r = None
                then r\<lparr>supersededBy := Some (length tbl)\<rparr> else r) tbl
        @ [new_row (length tbl) now args], length tbl)"
proof -
  let ?S = "fact_id ` {e \<in> set (facts_by_key tbl (arg_key args)). supersededBy e = None}"
  have old: "\<And>r. r \<in> set tbl \<Longrightarrow> fact_id r \<in> ?S \<longleftrightarrow> key r = arg_key args \<and> supersededBy r = None"
    using ids_ok_inj [OF assms] by (auto simp: facts_by_key_def)
  have new: "length tbl \<notin> ?S"
    using ids_ok_lt [OF assms] by (fastforce simp: facts_by_key_def)
  show ?thesis
    using new by (simp add: store_def facts_db_insert_def supersede_existing_map new_row_def old cong: map_cong)
qed

lemma store_ids_ok: "ids_ok tbl \<Longrightarrow> ids_ok (fst (store tbl now args))"
  by (simp add: store_char) (simp add: ids_ok_def new_row_def comp_def if_distrib cong: if_cong)

lemma storeBatch_loop_ids_ok: "ids_ok tbl \<Longrightarrow> ids_ok (fst (storeBatch_loop tbl now fs acc))"
proof (induction fs arbitrary: tbl acc)
  case Nil
  then show ?case by simp
next
  case (Cons f fs)
  from store_ids_ok [OF Cons.prems, of now f] Cons.IH show ?case
    by (auto split: prod.splits)
qed

lemma patch_length: "length (facts_db_patch_supersededBy tbl i n) = length tbl"
  by (simp add: facts_db_patch_supersededBy_def)

lemma remove_ids_ok: "ids_ok tbl \<Longrightarrow> ids_ok (remove tbl now i)"
  by (auto simp: remove_def facts_db_insert_def ids_ok_def patch_keeps_ids patch_length split: option.splits)

lemma fact_step_ids_ok: "ids_ok tbl \<Longrightarrow> ids_ok (fact_step tbl op)"
  by (cases op) (simp_all add: store_ids_ok storeBatch_def storeBatch_loop_ids_ok remove_ids_ok)

lemma foldl_fact_step_ids_ok: "ids_ok tbl \<Longrightarrow> ids_ok (foldl fact_step tbl ops)"
  by (induction ops arbitrary: tbl) (simp_all add: fact_step_ids_ok)

lemma fact_run_ids_ok: "ids_ok (fact_run ops)"
  unfolding fact_run_def by (rule foldl_fact_step_ids_ok [OF ids_ok_Nil])

lemma find_rev_last:
  "find P (rev xs) = (if filter P xs = [] then None else Some (last (filter P xs)))"
  by (induction xs rule: rev_induct) simp_all

lemma get_handler_newest_live:
  "get_handler tbl k = (if live_rows tbl k = [] then None else Some (last (live_rows tbl k)))"
proof -
  have "filter (\<lambda>r. supersededBy r = None) (facts_by_key tbl k) = live_rows tbl k"
    by (simp add: facts_by_key_def live_rows_def conj_commute)
  then show ?thesis by (simp add: get_handler_def find_rev_last)
qed

lemma store_live_rows:
  assumes "ids_ok tbl"
  shows "live_rows (fst (store tbl now args)) (arg_key args) = [new_row (length tbl) now args]"
proof -
  have "\<And>n. filter (\<lambda>r. key r = arg_key args \<and> supersededBy r = None)
          (map (\<lambda>r. if key r = arg_key args \<and> supersededBy r = None
                     then r\<lparr>supersededBy := Some n\<rparr> else r) tbl) = []"
    by (induction tbl) auto
  then show ?thesis
    by (simp add: store_char [OF assms] live_rows_def new_row_def)
qed

lemma store_snd: "ids_ok tbl \<Longrightarrow> snd (store tbl now args) = length tbl"
  by (simp add: store_char)

lemma store_length: "ids_ok tbl \<Longrightarrow> length (fst (store tbl now args)) = Suc (length tbl)"
  by (simp add: store_char)

lemma find_append_None: "find P xs = None \<Longrightarrow> find P (xs @ ys) = find P ys"
  by (induction xs) (simp_all split: if_splits)

lemma find_id_append_new:
  assumes "ids_ok tbl" "fact_id x = length tbl"
    and g: "\<And>r. fact_id (g r) = fact_id r"
  shows "find (\<lambda>r. fact_id r = length tbl) (map g tbl @ [x] @ ys) = Some x"
proof -
  have "\<And>r. r \<in> set (map g tbl) \<Longrightarrow> fact_id r \<noteq> length tbl"
    using ids_ok_lt [OF assms(1)] g by fastforce
  then have "find (\<lambda>r. fact_id r = length tbl) (map g tbl) = None"
    by (simp add: find_None_iff)
  then show ?thesis using assms(2) by (simp add: find_append_None)
qed

text \<open>
  Supersession at the level of the handlers: after two stores of one key, on any table
  reached by fact-store operations, the handler of \<open>get\<close> picks the second row, the first row
  is linked to the second, and one row of the key is not superseded. On every table the
  handler picks the newest row of the key that is not superseded, if there is one.
\<close>

lemma store_twice_supersedes:
  assumes "arg_key a1 = k" and "arg_key a2 = k"
    and "store (fact_run ops) now1 a1 = (t1, id1)"
    and "store t1 now2 a2 = (t2, id2)"
  shows "map_option fvalue (get_handler t2 k) = Some (arg_value a2)
       \<and> map_option fact_id (get_handler t2 k) = Some id2
       \<and> map_option supersededBy (facts_db_get t2 id1) = Some (Some id2)
       \<and> length (live_rows t2 k) = 1
       \<and> get_handler tbl k' = (if live_rows tbl k' = [] then None else Some (last (live_rows tbl k')))"
proof -
  let ?t0 = "fact_run ops"
  let ?n = "length ?t0"
  have ok0: "ids_ok ?t0" by (rule fact_run_ids_ok)
  have t1: "t1 = fst (store ?t0 now1 a1)" and id1: "id1 = ?n"
    using assms(3) store_snd [OF ok0, of now1 a1] by simp_all
  have ok1: "ids_ok t1" unfolding t1 by (rule store_ids_ok [OF ok0])
  have len1: "length t1 = Suc ?n" unfolding t1 by (rule store_length [OF ok0])
  have t2: "t2 = fst (store t1 now2 a2)" and id2: "id2 = Suc ?n"
    using assms(4) store_snd [OF ok1, of now2 a2] len1 by simp_all
  have live: "live_rows t2 k = [new_row (Suc ?n) now2 a2]"
    using store_live_rows [OF ok1, of now2 a2] assms(2) t2 len1 by simp
  have get: "get_handler t2 k = Some (new_row (Suc ?n) now2 a2)"
    by (simp add: get_handler_newest_live live)
  let ?f0 = "\<lambda>r. if key r = arg_key a1 \<and> supersededBy r = None
                then r\<lparr>supersededBy := Some ?n\<rparr> else r"
  let ?f1 = "\<lambda>r. if key r = arg_key a2 \<and> supersededBy r = None
                then r\<lparr>supersededBy := Some (Suc ?n)\<rparr> else r"
  have t1': "t1 = map ?f0 ?t0 @ [new_row ?n now1 a1]"
    unfolding t1 by (simp add: store_char [OF ok0])
  have t2': "t2 = map (?f1 \<circ> ?f0) ?t0 @ [?f1 (new_row ?n now1 a1)] @ [new_row (Suc ?n) now2 a2]"
    unfolding t2 by (simp add: store_char [OF ok1] len1) (simp add: t1')
  have row1: "facts_db_get t2 id1 = Some (?f1 (new_row ?n now1 a1))"
    unfolding facts_db_get_def id1 t2'
    by (rule find_id_append_new [OF ok0]) (simp_all add: new_row_def)
  have sup1: "supersededBy (?f1 (new_row ?n now1 a1)) = Some (Suc ?n)"
    using assms(1,2) by (simp add: new_row_def)
  show ?thesis
    using get live row1 sup1 id2 get_handler_newest_live [of tbl k']
    by (simp add: new_row_def)
qed

lemmas fact_eval_defs = fact_run_def store_def storeBatch_def remove_def facts_db_insert_def facts_db_get_def
  facts_db_patch_supersededBy_def facts_by_key_def supersede_existing_def live_rows_def get_handler_def
  deadline_args_def

lemma store_twice_supersedes_example:
  "fst (store (fst (store (fact_run []) 100 (deadline_args ''Friday'' 1))) 200 (deadline_args ''Monday'' 2))
     = [\<lparr> fact_id = 0, key = ''project_alpha_deadline'', fvalue = ''Friday'', category = Some Date,
           fact_blockId = 1, fact_turnId = None, evidenceSnippet = None, supersededBy = Some 1,
           fact_createdAt = 100 \<rparr>,
        \<lparr> fact_id = 1, key = ''project_alpha_deadline'', fvalue = ''Monday'', category = Some Date,
           fact_blockId = 2, fact_turnId = None, evidenceSnippet = None, supersededBy = None,
           fact_createdAt = 200 \<rparr>]
   \<and> map_option fvalue (get_handler (fst (store (fst (store (fact_run []) 100 (deadline_args ''Friday'' 1))) 200
          (deadline_args ''Monday'' 2))) ''project_alpha_deadline'') = Some ''Monday''
   \<and> map_option supersededBy (facts_db_get (fst (store (fst (store (fact_run []) 100 (deadline_args ''Friday'' 1))) 200
          (deadline_args ''Monday'' 2))) 0) = Some (Some 1)
   \<and> length (live_rows (fst (store (fst (store (fact_run []) 100 (deadline_args ''Friday'' 1))) 200
          (deadline_args ''Monday'' 2))) ''project_alpha_deadline'') = 1"
proof -
  let ?s1 = "store (fact_run []) 100 (deadline_args ''Friday'' 1)"
  let ?s2 = "store (fst ?s1) 200 (deadline_args ''Monday'' 2)"
  have k1: "arg_key (deadline_args ''Friday'' 1) = ''project_alpha_deadline''"
    and k2: "arg_key (deadline_args ''Monday'' 2) = ''project_alpha_deadline''"
    by (simp_all add: deadline_args_def)
  have h1: "?s1 = (fst ?s1, snd ?s1)" and h2: "?s2 = (fst ?s2, snd ?s2)" by simp_all
  have ids: "snd ?s1 = 0" "snd ?s2 = 1" by (simp_all add: fact_eval_defs)
  have v: "arg_value (deadline_args ''Monday'' 2) = ''Monday''" by (simp add: deadline_args_def)
  have tbl: "fst ?s2 = [\<lparr> fact_id = 0, key = ''project_alpha_deadline'', fvalue = ''Friday'', category = Some Date,
           fact_blockId = 1, fact_turnId = None, evidenceSnippet = None, supersededBy = Some 1,
           fact_createdAt = 100 \<rparr>,
        \<lparr> fact_id = 1, key = ''project_alpha_deadline'', fvalue = ''Monday'', category = Some Date,
           fact_blockId = 2, fact_turnId = None, evidenceSnippet = None, supersededBy = None,
           fact_createdAt = 200 \<rparr>]"
    by (simp add: fact_eval_defs)
  from store_twice_supersedes [OF k1 k2 h1 h2, of "[]" "[]"] ids v tbl
  show ?thesis by simp
qed

lemma facts_get_rejects_every_document:
  "facts_get tbl k = (if live_rows tbl k = [] then Inr None else Inl ReturnValidationError)"
proof -
  have "\<And>doc. \<not> passes_get_returns (Some doc)"
    by (simp add: passes_get_returns_def fact_doc_fields_def get_returns_fields_def)
  then show ?thesis
    by (simp add: facts_get_def Let_def get_handler_newest_live passes_get_returns_def)
qed

text \<open>
  Claim C2 says that after \<open>store\<close> of a key with one value and \<open>store\<close> of the same key
  with a second value, \<open>get\<close> of the key returns the second fact, the first row's
  \<open>supersededBy\<close> is the second row's id and one row of the key is not superseded. The two
  stores do their part, and the handler of \<open>get\<close> picks the second row. But the query
  returns the raw document, which carries \<^verbatim>\<open>_creationTime\<close>, through a validator that
  does not list that field: for a key with a fact the query fails, here in the scenario of
  the claim.
\<close>

theorem get_query_rejects_superseding_fact:
  "facts_get (fst (store (fst (store (fact_run []) 100 (deadline_args ''Friday'' 1))) 200
        (deadline_args ''Monday'' 2))) ''project_alpha_deadline'' = Inl ReturnValidationError
   \<and> map_option fvalue (get_handler (fst (store (fst (store (fact_run []) 100 (deadline_args ''Friday'' 1))) 200
          (deadline_args ''Monday'' 2))) ''project_alpha_deadline'') = Some ''Monday''
   \<and> map_option supersededBy (facts_db_get (fst (store (fst (store (fact_run []) 100 (deadline_args ''Friday'' 1))) 200
          (deadline_args ''Monday'' 2))) 0) = Some (Some 1)
   \<and> length (live_rows (fst (store (fst (store (fact_run []) 100 (deadline_args ''Friday'' 1))) 200
          (deadline_args ''Monday'' 2))) ''project_alpha_deadline'') = 1
   \<and> facts_get (fact_run []) ''project_alpha_deadline'' = Inr None"
proof -
  let ?t = "fst (store (fst (store (fact_run []) 100 (deadline_args ''Friday'' 1))) 200
          (deadline_args ''Monday'' 2))"
  note ex = store_twice_supersedes_example [THEN conjunct2]
  have len: "length (live_rows ?t ''project_alpha_deadline'') = 1"
    by (rule ex [THEN conjunct2, THEN conjunct2])
  have live: "live_rows ?t ''project_alpha_deadline'' \<noteq> []"
    using len by auto
  have q: "facts_get ?t ''project_alpha_deadline'' = Inl ReturnValidationError"
    using live by (simp only: facts_get_rejects_every_document if_False)
  have none: "live_rows (fact_run []) ''project_alpha_deadline'' = []"
    by (simp add: fact_run_def live_rows_def facts_by_key_def)
  have e: "facts_get (fact_run []) ''project_alpha_deadline'' = Inr None"
    using none by (simp add: facts_get_rejects_every_document)
  show ?thesis
    by (intro conjI q ex [THEN conjunct1] ex [THEN conjunct2, THEN conjunct1] len e)
qed

text \<open>
  Claim C1 says that after any sequence of \<open>store\<close>, \<open>storeBatch\<close> and \<open>remove\<close> from the
  empty table every key has at most one row that is not superseded, and that \<open>remove\<close> is
  idempotent on a row that is already superseded. \<open>store\<close> and \<open>storeBatch\<close> keep the
  invariant, and so does \<open>remove\<close> of a row that is not superseded (lemmas below). But
  \<open>remove\<close> never looks at the target's \<open>supersededBy\<close>: on a superseded row it inserts
  another \<open>[DELETED]\<close> row and re-links the target, which leaves two rows of the key that
  are not superseded. The theorem evaluates two such runs: removing the old version of a
  key that has a newer value, and removing the same row twice.
\<close>

theorem remove_superseded_row_leaves_two_live:
  "map (\<lambda>r. (fact_id r, fvalue r, supersededBy r))
       (fact_run [Store (deadline_args ''Friday'' 1) 100, Store (deadline_args ''Monday'' 2) 200, Remove 0 300])
     = [(0, ''Friday'', Some 2), (1, ''Monday'', None), (2, ''[DELETED]'', None)]
   \<and> length (live_rows (fact_run [Store (deadline_args ''Friday'' 1) 100,
         Store (deadline_args ''Monday'' 2) 200, Remove 0 300]) ''project_alpha_deadline'') = 2
   \<and> map (\<lambda>r. (fact_id r, fvalue r, supersededBy r))
       (fact_run [Store (deadline_args ''Friday'' 1) 100, Remove 0 200, Remove 0 300])
     = [(0, ''Friday'', Some 2), (1, ''[DELETED]'', None), (2, ''[DELETED]'', None)]
   \<and> length (live_rows (fact_run [Store (deadline_args ''Friday'' 1) 100, Remove 0 200, Remove 0 300])
         ''project_alpha_deadline'') = 2
   \<and> fact_run [Store (deadline_args ''Friday'' 1) 100, Remove 0 200, Remove 0 300]
       \<noteq> fact_run [Store (deadline_args ''Friday'' 1) 100, Remove 0 200]"
  by (simp add: fact_eval_defs)

lemma store_other_key_live_rows:
  assumes "ids_ok tbl" "k \<noteq> arg_key args"
  shows "live_rows (fst (store tbl now args)) k = live_rows tbl k"
proof -
  have "\<And>n. filter (\<lambda>r. key r = k \<and> supersededBy r = None)
          (map (\<lambda>r. if key r = arg_key args \<and> supersededBy r = None
                     then r\<lparr>supersededBy := Some n\<rparr> else r) tbl)
        = filter (\<lambda>r. key r = k \<and> supersededBy r = None) tbl"
    using assms(2) by (induction tbl) auto
  then show ?thesis
    using assms(2) by (simp add: store_char [OF assms(1)] live_rows_def new_row_def)
qed

lemma store_keeps_single_live:
  assumes "ids_ok tbl" "single_live tbl"
  shows "single_live (fst (store tbl now args))"
  unfolding single_live_def
proof
  fix k
  show "length (live_rows (fst (store tbl now args)) k) \<le> 1"
  proof (cases "k = arg_key args")
    case True
    then show ?thesis by (simp add: store_live_rows [OF assms(1)])
  next
    case False
    then show ?thesis
      using assms(2) by (simp add: store_other_key_live_rows [OF assms(1)] single_live_def)
  qed
qed

lemma storeBatch_loop_keeps_single_live:
  "ids_ok tbl \<Longrightarrow> single_live tbl \<Longrightarrow> single_live (fst (storeBatch_loop tbl now fs acc))"
proof (induction fs arbitrary: tbl acc)
  case Nil
  then show ?case by simp
next
  case (Cons f fs)
  from store_ids_ok [OF Cons.prems(1), of now f] store_keeps_single_live [OF Cons.prems, of now f] Cons.IH
  show ?case by (auto split: prod.splits)
qed

lemma remove_live_row_keeps_single_live:
  assumes ok: "ids_ok tbl" and sl: "single_live tbl"
    and g: "facts_db_get tbl i = Some f" and live: "supersededBy f = None"
  shows "single_live (remove tbl now i)"
  unfolding single_live_def
proof
  fix k
  from g have fin: "f \<in> set tbl" and fid: "fact_id f = i"
    by (auto simp: facts_db_get_def find_Some_iff)
  have uniq: "\<And>r. r \<in> set tbl \<Longrightarrow> fact_id r = i \<longleftrightarrow> r = f"
    using ids_ok_inj [OF ok _ fin] fid by auto
  have ilt: "i < length tbl" using ids_ok_lt [OF ok fin] fid by simp
  have rem: "remove tbl now i =
      map (\<lambda>r. if r = f then r\<lparr>supersededBy := Some (length tbl)\<rparr> else r) tbl
        @ [\<lparr> fact_id = length tbl, key = key f, fvalue = ''[DELETED]'',
             category = category f, fact_blockId = fact_blockId f, fact_turnId = None,
             evidenceSnippet = Some ''Fact was explicitly deleted'',
             supersededBy = None, fact_createdAt = now \<rparr>]"
    using ilt by (simp add: remove_def g facts_db_insert_def facts_db_patch_supersededBy_def uniq cong: map_cong)
  show "length (live_rows (remove tbl now i) k) \<le> 1"
  proof (cases "k = key f")
    case True
    from sl have "length (live_rows tbl (key f)) \<le> 1" by (simp add: single_live_def)
    moreover have "f \<in> set (live_rows tbl (key f))" using fin live by (simp add: live_rows_def)
    ultimately have only: "live_rows tbl (key f) = [f]"
      by (cases "live_rows tbl (key f)") auto
    have "\<And>r. r \<in> set tbl \<Longrightarrow> key r = key f \<Longrightarrow> supersededBy r = None \<Longrightarrow> r = f"
    proof -
      fix r assume "r \<in> set tbl" "key r = key f" "supersededBy r = None"
      then have "r \<in> set (live_rows tbl (key f))" by (simp add: live_rows_def)
      with only show "r = f" by simp
    qed
    then have "filter (\<lambda>r. key r = key f \<and> supersededBy r = None)
        (map (\<lambda>r. if r = f then r\<lparr>supersededBy := Some (length tbl)\<rparr> else r) tbl) = []"
      by (auto simp: filter_empty_conv)
    then show ?thesis using True by (simp add: rem live_rows_def)
  next
    case False
    have "\<And>n. filter (\<lambda>r. key r = k \<and> supersededBy r = None)
        (map (\<lambda>r. if r = f then r\<lparr>supersededBy := Some n\<rparr> else r) tbl)
        = filter (\<lambda>r. key r = k \<and> supersededBy r = None) tbl"
      using False by (induction tbl) auto
    then show ?thesis
      using False sl by (simp add: rem live_rows_def single_live_def)
  qed
qed

section \<open>Bridge blocks: properties\<close>

lemma patch_block_ids:
  "(\<And>b. block_id (f b) = block_id b) \<Longrightarrow> map block_id (bridgeBlocks_patch tbl i f) = map block_id tbl"
  by (induction tbl) (simp_all add: bridgeBlocks_patch_def)

lemma patch_length_blocks: "length (bridgeBlocks_patch tbl i f) = length tbl"
  by (simp add: bridgeBlocks_patch_def)

lemma patch_ids_ok:
  "(\<And>b. block_id (f b) = block_id b) \<Longrightarrow> block_ids_ok tbl \<Longrightarrow> block_ids_ok (bridgeBlocks_patch tbl i f)"
  by (simp add: block_ids_ok_def patch_block_ids patch_length_blocks)

lemma patch_same_status:
  "(\<And>b. status (f b) = status b) \<Longrightarrow> map status (bridgeBlocks_patch tbl i f) = map status tbl"
  by (induction tbl) (simp_all add: bridgeBlocks_patch_def)

lemma active_length_status:
  "length (active_blocks tbl) = length (filter (\<lambda>s. s = ACTIVE) (map status tbl))"
  by (simp add: active_blocks_def filter_map comp_def)

lemma patch_inactive_le:
  "(\<And>b. status (f b) \<noteq> ACTIVE) \<Longrightarrow>
   length (active_blocks (bridgeBlocks_patch tbl i f)) \<le> length (active_blocks tbl)"
  by (induction tbl) (auto simp: bridgeBlocks_patch_def active_blocks_def)

lemma block_ids_ok_lt: "block_ids_ok tbl \<Longrightarrow> b \<in> set tbl \<Longrightarrow> block_id b < length tbl"
proof -
  assume a: "block_ids_ok tbl" and b: "b \<in> set tbl"
  from b have "block_id b \<in> set (map block_id tbl)" by simp
  with a show ?thesis by (simp add: block_ids_ok_def)
qed

lemma block_ids_ok_inj:
  "block_ids_ok tbl \<Longrightarrow> b \<in> set tbl \<Longrightarrow> b' \<in> set tbl \<Longrightarrow> block_id b = block_id b' \<Longrightarrow> b = b'"
proof -
  assume a: "block_ids_ok tbl" and r: "b \<in> set tbl" "b' \<in> set tbl" and e: "block_id b = block_id b'"
  from a have "distinct (map block_id tbl)" by (simp add: block_ids_ok_def)
  then have "inj_on block_id (set tbl)" by (rule distinct_map [THEN iffD1, THEN conjunct2])
  with r e show ?thesis by (auto dest: inj_onD)
qed

lemma distinct_filter_eq_le1: "distinct xs \<Longrightarrow> length (filter (\<lambda>j. j = i) xs) \<le> 1"
proof (induction xs)
  case Nil
  then show ?case by simp
next
  case (Cons x xs)
  show ?case
  proof (cases "x = i")
    case True
    with Cons.prems have "i \<notin> set xs" by simp
    then have "filter (\<lambda>j. j = i) xs = []" by (auto simp: filter_empty_conv)
    with True show ?thesis by simp
  next
    case False
    with Cons show ?thesis by simp
  qed
qed

lemma one_row_per_id:
  assumes "block_ids_ok tbl"
  shows "length (filter (\<lambda>b. block_id b = i) tbl) \<le> 1"
proof -
  from assms have d: "distinct (map block_id tbl)" by (simp add: block_ids_ok_def)
  have "length (filter (\<lambda>b. block_id b = i) tbl) = length (filter (\<lambda>j. j = i) (map block_id tbl))"
    by (simp add: filter_map comp_def)
  with distinct_filter_eq_le1 [OF d, of i] show ?thesis by simp
qed

lemma filter_map_mono:
  assumes "\<And>b. P (g b) \<Longrightarrow> P b"
  shows "length (filter P (map g xs)) \<le> length (filter P xs)"
proof (induction xs)
  case Nil
  then show ?case by simp
next
  case (Cons x xs)
  then show ?case using assms [of x] by (cases "P (g x)") (simp_all add: le_SucI)
qed

lemma pause_loop_map:
  "foldl (\<lambda>t b. if P b then bridgeBlocks_patch t (block_id b) (pause_patch now) else t) tbl bs
     = map (\<lambda>r. if block_id r \<in> block_id ` {b \<in> set bs. P b} then pause_patch now r else r) tbl"
proof (induction bs arbitrary: tbl)
  case Nil
  then show ?case by simp
next
  case (Cons b bs)
  show ?case
    by (simp add: Cons.IH) (auto simp: bridgeBlocks_patch_def pause_patch_def)
qed

lemma create_blocks:
  assumes "block_ids_ok (bridgeBlocks db)"
  shows "bridgeBlocks (fst (create db now d l ks p))
     = map (\<lambda>b. if status b = ACTIVE then pause_patch now b else b) (bridgeBlocks db)
       @ [created_block (length (bridgeBlocks db)) now d l ks p]"
proof -
  let ?tbl = "bridgeBlocks db"
  have loop: "foldl (\<lambda>t b. bridgeBlocks_patch t (block_id b) (pause_patch now)) ?tbl (active_blocks ?tbl)
      = map (\<lambda>r. if block_id r \<in> block_id ` set (active_blocks ?tbl) then pause_patch now r else r) ?tbl"
    using pause_loop_map [of "\<lambda>_. True" now ?tbl "active_blocks ?tbl"] by simp
  have mem: "\<And>r. r \<in> set ?tbl \<Longrightarrow>
      block_id r \<in> block_id ` set (active_blocks ?tbl) \<longleftrightarrow> status r = ACTIVE"
    using block_ids_ok_inj [OF assms] by (auto simp: active_blocks_def)
  show ?thesis
    by (simp add: create_def Let_def loop bridgeBlocks_insert_def created_block_def mem cong: map_cong)
qed

lemma create_one_active:
  assumes "block_ids_ok (bridgeBlocks db)"
  shows "one_active (fst (create db now d l ks p))"
    and "active_blocks (bridgeBlocks (fst (create db now d l ks p)))
          = [created_block (length (bridgeBlocks db)) now d l ks p]"
proof -
  have none: "filter (\<lambda>b. status b = ACTIVE)
      (map (\<lambda>b. if status b = ACTIVE then pause_patch now b else b) (bridgeBlocks db)) = []"
    by (auto simp: filter_empty_conv pause_patch_def)
  show a: "active_blocks (bridgeBlocks (fst (create db now d l ks p)))
          = [created_block (length (bridgeBlocks db)) now d l ks p]"
    by (simp add: create_blocks [OF assms] active_blocks_def none) (simp add: created_block_def)
  have "map block_id (bridgeBlocks (fst (create db now d l ks p)))
          = map block_id (bridgeBlocks db) @ [length (bridgeBlocks db)]"
    by (simp add: create_blocks [OF assms] created_block_def pause_patch_def comp_def if_distrib cong: if_cong)
  with assms have "block_ids_ok (bridgeBlocks (fst (create db now d l ks p)))"
    by (simp add: block_ids_ok_def create_blocks [OF assms])
  with a show "one_active (fst (create db now d l ks p))" by (simp add: one_active_def)
qed

lemma updateStatus_blocks:
  assumes "updateStatus db now i s = Inr db'"
  shows "bridgeBlocks db' =
     map (\<lambda>b. if block_id b = i then b\<lparr>status := s, updatedAt := now\<rparr>
               else if s = ACTIVE \<and> block_id b \<in> block_id ` {a \<in> set (active_blocks (bridgeBlocks db)). block_id a \<noteq> i}
               then pause_patch now b else b) (bridgeBlocks db)"
proof -
  let ?tbl = "bridgeBlocks db"
  let ?S = "block_id ` {a \<in> set (active_blocks ?tbl). block_id a \<noteq> i}"
  let ?tbl1 = "if s = ACTIVE
               then map (\<lambda>r. if block_id r \<in> ?S then pause_patch now r else r) ?tbl
               else ?tbl"
  have t1: "(if s = ACTIVE
             then foldl (\<lambda>t b. if block_id b \<noteq> i
                                then bridgeBlocks_patch t (block_id b) (pause_patch now) else t)
                    ?tbl (active_blocks ?tbl)
             else ?tbl) = ?tbl1"
    by (simp only: pause_loop_map)
  from assms have "db' = db\<lparr>bridgeBlocks :=
       bridgeBlocks_patch ?tbl1 i (\<lambda>b. b\<lparr>status := s, updatedAt := now\<rparr>)\<rparr>"
    unfolding updateStatus_def Let_def t1 by (auto split: option.splits)
  then have "bridgeBlocks db' = bridgeBlocks_patch ?tbl1 i (\<lambda>b. b\<lparr>status := s, updatedAt := now\<rparr>)"
    by simp
  also have "\<dots> = map (\<lambda>b. if block_id b = i then b\<lparr>status := s, updatedAt := now\<rparr>
               else if s = ACTIVE \<and> block_id b \<in> ?S then pause_patch now b else b) ?tbl"
    by (cases "s = ACTIVE") (auto simp: bridgeBlocks_patch_def pause_patch_def)
  finally show ?thesis .
qed

lemma updateStatus_one_active:
  assumes inv: "one_active db" and res: "updateStatus db now i s = Inr db'"
  shows "one_active db'"
proof -
  let ?tbl = "bridgeBlocks db"
  let ?g = "\<lambda>b. if block_id b = i then b\<lparr>status := s, updatedAt := now\<rparr>
               else if s = ACTIVE \<and> block_id b \<in> block_id ` {a \<in> set (active_blocks ?tbl). block_id a \<noteq> i}
               then pause_patch now b else b"
  from inv have ok: "block_ids_ok ?tbl" and le: "length (active_blocks ?tbl) \<le> 1"
    by (simp_all add: one_active_def)
  have tbl': "bridgeBlocks db' = map ?g ?tbl" by (rule updateStatus_blocks [OF res])
  have ids: "map block_id (map ?g ?tbl) = map block_id ?tbl"
    by (simp add: pause_patch_def comp_def if_distrib cong: if_cong)
  have ok': "block_ids_ok (bridgeBlocks db')"
    using ok ids unfolding tbl' block_ids_ok_def by simp
  have "length (active_blocks (map ?g ?tbl)) \<le> 1"
  proof (cases "s = ACTIVE")
    case True
    have "\<And>b. b \<in> set ?tbl \<Longrightarrow> status (?g b) = ACTIVE \<longleftrightarrow> block_id b = i"
      using True by (auto simp: pause_patch_def active_blocks_def)
    then have "filter (\<lambda>b. status b = ACTIVE) (map ?g ?tbl) = map ?g (filter (\<lambda>b. block_id b = i) ?tbl)"
      by (simp add: filter_map comp_def cong: filter_cong)
    then show ?thesis using one_row_per_id [OF ok, of i] by (simp add: active_blocks_def)
  next
    case False
    have "\<And>b. status (?g b) = ACTIVE \<Longrightarrow> status b = ACTIVE"
      using False by (auto split: if_splits)
    then have "length (filter (\<lambda>b. status b = ACTIVE) (map ?g ?tbl)) \<le> length (filter (\<lambda>b. status b = ACTIVE) ?tbl)"
      by (rule filter_map_mono)
    with le show ?thesis by (simp add: active_blocks_def)
  qed
  with ok' show ?thesis by (simp add: one_active_def tbl')
qed

lemma patch_same_status_one_active:
  assumes "one_active db" and "\<And>b. status (f b) = status b" and "\<And>b. block_id (f b) = block_id b"
  shows "one_active (db\<lparr>bridgeBlocks := bridgeBlocks_patch (bridgeBlocks db) i f\<rparr>)"
    and "one_active (db\<lparr>bridgeBlocks := bridgeBlocks_patch (bridgeBlocks db) i f, turns := ts\<rparr>)"
  using assms
  by (simp_all add: one_active_def patch_ids_ok active_length_status patch_same_status)

lemma patch_inactive_one_active:
  assumes "one_active db" and "\<And>b. status (f b) \<noteq> ACTIVE" and "\<And>b. block_id (f b) = block_id b"
  shows "one_active (db\<lparr>bridgeBlocks := bridgeBlocks_patch (bridgeBlocks db) i f\<rparr>)"
proof -
  from assms(1) have "length (active_blocks (bridgeBlocks db)) \<le> 1" by (simp add: one_active_def)
  with patch_inactive_le [of f "bridgeBlocks db" i, OF assms(2)]
  have "length (active_blocks (bridgeBlocks_patch (bridgeBlocks db) i f)) \<le> 1" by simp
  with assms(1,3) show ?thesis by (simp add: one_active_def patch_ids_ok)
qed

lemma pauseWithSummary_one_active: "one_active db \<Longrightarrow> one_active (pauseWithSummary db now i)"
  unfolding pauseWithSummary_def Let_def
  by (cases "bridgeBlocks_get (bridgeBlocks db) i") (simp_all add: patch_inactive_one_active)

lemma pauseWithSummary_status:
  "map status (bridgeBlocks (pauseWithSummary db now i))
     = map (\<lambda>b. if block_id b = i then PAUSED else status b) (bridgeBlocks db)"
proof (cases "bridgeBlocks_get (bridgeBlocks db) i")
  case None
  then have "\<And>b. b \<in> set (bridgeBlocks db) \<Longrightarrow> block_id b \<noteq> i"
    by (auto simp: bridgeBlocks_get_def find_None_iff)
  with None show ?thesis by (simp add: pauseWithSummary_def cong: map_cong)
next
  case (Some blk)
  then show ?thesis
    by (simp add: pauseWithSummary_def Let_def bridgeBlocks_patch_def comp_def if_distrib cong: if_cong)
qed

lemma appendTurn_one_active: "one_active db \<Longrightarrow> one_active (fst (appendTurn db now i t u a ks af))"
proof -
  assume inv: "one_active db"
  have keep: "\<And>ts. one_active (db\<lparr>turns := ts\<rparr>)"
    using inv by (simp add: one_active_def)
  show ?thesis
    unfolding appendTurn_def Let_def
    by (cases "bridgeBlocks_get (bridgeBlocks db) i")
       (simp_all add: keep patch_same_status_one_active(2) [OF inv])
qed

lemma updateMetadata_one_active:
  "one_active db \<Longrightarrow> updateMetadata db now i s ks ls ds = Inr db' \<Longrightarrow> one_active db'"
  unfolding updateMetadata_def
  by (cases "bridgeBlocks_get (bridgeBlocks db) i") (auto intro!: patch_same_status_one_active(1))

lemma updateMetadataFromResponse_one_active:
  "one_active db \<Longrightarrow> one_active (updateMetadataFromResponse db now i m)"
  unfolding updateMetadataFromResponse_def Let_def
  by (cases "bridgeBlocks_get (bridgeBlocks db) i") (auto intro!: patch_same_status_one_active(1))

lemma block_step_one_active: "one_active db \<Longrightarrow> one_active (block_step db op)"
proof (cases op)
  case (Create now d l ks p)
  assume "one_active db"
  then have "block_ids_ok (bridgeBlocks db)" by (simp add: one_active_def)
  from create_one_active(1) [OF this] Create show ?thesis by simp
next
  case (UpdateStatus now i s)
  assume "one_active db"
  with UpdateStatus updateStatus_one_active [of db now i s] show ?thesis
    by (cases "updateStatus db now i s") simp_all
next
  case (PauseWithSummary now i)
  assume "one_active db"
  with PauseWithSummary show ?thesis by (simp add: pauseWithSummary_one_active)
next
  case (AppendTurn now i t u a ks af)
  assume "one_active db"
  with AppendTurn show ?thesis by (simp add: appendTurn_one_active)
next
  case (UpdateMetadata now i s ks ls ds)
  assume "one_active db"
  with UpdateMetadata updateMetadata_one_active [of db now i s ks ls ds] show ?thesis
    by (cases "updateMetadata db now i s ks ls ds") simp_all
next
  case (UpdateMetadataFromResponse now i m)
  assume "one_active db"
  with UpdateMetadataFromResponse show ?thesis by (simp add: updateMetadataFromResponse_one_active)
qed

lemma foldl_block_step_one_active: "one_active db \<Longrightarrow> one_active (foldl block_step db ops)"
  by (induction ops arbitrary: db) (simp_all add: block_step_one_active)

lemma block_run_one_active: "one_active (block_run ops)"
  unfolding block_run_def
  by (rule foldl_block_step_one_active) (simp add: one_active_def empty_db_def block_ids_ok_def active_blocks_def)

lemma getActive_sublist: "length (getActive db d) \<le> length (active_blocks (bridgeBlocks db))"
  by (cases d) (simp_all add: getActive_def Let_def)

lemma updateStatus_ACTIVE_status:
  assumes ok: "block_ids_ok (bridgeBlocks db)" and res: "updateStatus db now i ACTIVE = Inr db'"
  shows "map status (bridgeBlocks db')
     = map (\<lambda>b. if block_id b = i then ACTIVE else if status b = ACTIVE then PAUSED else status b)
         (bridgeBlocks db)"
proof -
  have mem: "\<And>b. b \<in> set (bridgeBlocks db) \<Longrightarrow> block_id b \<noteq> i \<Longrightarrow>
      block_id b \<in> block_id ` {a \<in> set (active_blocks (bridgeBlocks db)). block_id a \<noteq> i}
        \<longleftrightarrow> status b = ACTIVE"
    using block_ids_ok_inj [OF ok] by (auto simp: active_blocks_def)
  show ?thesis
    unfolding updateStatus_blocks [OF res]
    by (auto simp: mem pause_patch_def)
qed

text \<open>
  Claim C3. After any sequence of \<open>create\<close>, \<open>updateStatus\<close> and \<open>pauseWithSummary\<close> calls
  (and of \<open>appendTurn\<close>, \<open>updateMetadata\<close> and \<open>updateMetadataFromResponse\<close> calls among
  them) from the empty database, every day has at most one ACTIVE block, as at most one
  block is ACTIVE at all. \<open>create\<close> pauses every ACTIVE block and appends the new block as
  ACTIVE; \<open>updateStatus\<close> to ACTIVE, when it succeeds, makes the target ACTIVE and every
  other ACTIVE block PAUSED; \<open>pauseWithSummary\<close> changes no status but the target's, to
  PAUSED.
\<close>

theorem at_most_one_active_block:
  "length (filter (\<lambda>b. dayId b = d \<and> status b = ACTIVE) (bridgeBlocks (block_run ops))) \<le> 1
   \<and> length (getActive (block_run ops) (Some d)) \<le> 1
   \<and> length (active_blocks (bridgeBlocks (block_run ops))) \<le> 1
   \<and> bridgeBlocks (fst (create (block_run ops) now d l ks p))
       = map (\<lambda>b. if status b = ACTIVE then pause_patch now b else b) (bridgeBlocks (block_run ops))
         @ [created_block (length (bridgeBlocks (block_run ops))) now d l ks p]
   \<and> (updateStatus (block_run ops) now i ACTIVE = Inr db' \<longrightarrow>
        map status (bridgeBlocks db')
          = map (\<lambda>b. if block_id b = i then ACTIVE else if status b = ACTIVE then PAUSED else status b)
              (bridgeBlocks (block_run ops)))
   \<and> map status (bridgeBlocks (pauseWithSummary (block_run ops) now i))
       = map (\<lambda>b. if block_id b = i then PAUSED else status b) (bridgeBlocks (block_run ops))"
proof -
  have inv: "one_active (block_run ops)" by (rule block_run_one_active)
  then have ok: "block_ids_ok (bridgeBlocks (block_run ops))"
    and le: "length (active_blocks (bridgeBlocks (block_run ops))) \<le> 1"
    by (simp_all add: one_active_def)
  have "filter (\<lambda>b. dayId b = d \<and> status b = ACTIVE) (bridgeBlocks (block_run ops))
      = filter (\<lambda>b. dayId b = d) (active_blocks (bridgeBlocks (block_run ops)))"
    by (simp add: active_blocks_def conj_commute)
  then have day: "length (filter (\<lambda>b. dayId b = d \<and> status b = ACTIVE) (bridgeBlocks (block_run ops)))
      \<le> length (active_blocks (bridgeBlocks (block_run ops)))"
    by simp
  from day le getActive_sublist [of "block_run ops" "Some d"] create_blocks [OF ok]
    updateStatus_ACTIVE_status [OF ok] pauseWithSummary_status
  show ?thesis by (simp (no_asm_simp))
qed

lemmas block_eval_defs = block_run_def empty_db_def create_def updateStatus_def pauseWithSummary_def
  appendTurn_def updateMetadata_def updateMetadataFromResponse_def bridgeBlocks_get_def
  bridgeBlocks_patch_def bridgeBlocks_insert_def active_blocks_def turns_by_block_def pause_patch_def
  heuristic_summary_def show_int_def digit_char_def getActive_def merge_clamped_def new_Set_def
  set_add_def Let_def

lemma demo_block_run:
  "block_run demo_block_ops =
     \<lparr> bridgeBlocks =
        [\<lparr> block_id = 0, dayId = ''2025-01-15'', topicLabel = ''Contracts'',
           summary = Some (''2 exchanges. Started with: '' @ [CHR 0x22] @ ''What is a contract?...''
                          @ [CHR 0x22] @ '' Ended with: '' @ [CHR 0x22] @ ''And a tort?...'' @ [CHR 0x22]),
           block_keywords = [''contract'', ''law''], status = PAUSED, prevBlockId = None,
           openLoops = [], decisionsMade = [], turnCount = 2, createdAt = 1000, updatedAt = 1300 \<rparr>,
         \<lparr> block_id = 1, dayId = ''2025-01-15'', topicLabel = ''Cooking'', summary = None,
           block_keywords = [''pasta''], status = ACTIVE, prevBlockId = Some 0,
           openLoops = [], decisionsMade = [], turnCount = 0, createdAt = 1400, updatedAt = 1400 \<rparr>],
       turns =
        [\<lparr> turn_id = 0, blockId = 0, turnId = ''turn_1100'', userMessage = ''What is a contract?'',
           aiResponse = ''An agreement.'', turn_keywords = None, affect = None, timestamp = 1100 \<rparr>,
         \<lparr> turn_id = 1, blockId = 0, turnId = ''turn_b'', userMessage = ''And a tort?'',
           aiResponse = ''A civil wrong.'', turn_keywords = None, affect = None, timestamp = 1200 \<rparr>],
       topicAffinity = [] \<rparr>"
  by (simp add: demo_block_ops_def block_eval_defs)

theorem at_most_one_active_block_witness:
  "map status (bridgeBlocks (block_run demo_block_ops)) = [PAUSED, ACTIVE]
   \<and> length (getActive (block_run demo_block_ops) (Some ''2025-01-15'')) = 1
   \<and> map status (bridgeBlocks (fst (create (block_run demo_block_ops) 1600 ''2025-01-15'' ''Tax'' [] None)))
        = [PAUSED, PAUSED, ACTIVE]
   \<and> map (map status \<circ> bridgeBlocks) [projr (updateStatus (block_run demo_block_ops) 1600 0 ACTIVE)]
        = [[ACTIVE, PAUSED]]
   \<and> updateStatus (block_run demo_block_ops) 1600 7 ACTIVE = Inl NonexistentDocument
   \<and> map status (bridgeBlocks (pauseWithSummary (block_run demo_block_ops) 1600 1)) = [PAUSED, PAUSED]"
proof -
  let ?db = "block_run demo_block_ops"
  have inr: "updateStatus ?db 1600 0 ACTIVE = Inr (projr (updateStatus ?db 1600 0 ACTIVE))"
    by (simp add: demo_block_run) (simp add: block_eval_defs)
  have inl: "updateStatus ?db 1600 7 ACTIVE = Inl NonexistentDocument"
    by (simp add: demo_block_run) (simp add: block_eval_defs)
  from at_most_one_active_block [of "''2025-01-15''" demo_block_ops 1600 "''Tax''" "[]" None 0
      "projr (updateStatus ?db 1600 0 ACTIVE)" ]
  have a: "bridgeBlocks (fst (create ?db 1600 ''2025-01-15'' ''Tax'' [] None))
       = map (\<lambda>b. if status b = ACTIVE then pause_patch 1600 b else b) (bridgeBlocks ?db)
         @ [created_block (length (bridgeBlocks ?db)) 1600 ''2025-01-15'' ''Tax'' [] None]"
    and b: "map status (bridgeBlocks (projr (updateStatus ?db 1600 0 ACTIVE)))
          = map (\<lambda>b. if block_id b = 0 then ACTIVE else if status b = ACTIVE then PAUSED else status b)
              (bridgeBlocks ?db)"
    and c: "length (getActive ?db (Some ''2025-01-15'')) \<le> 1"
    using inr by simp_all
  from at_most_one_active_block [of "''2025-01-15''" demo_block_ops 1600 "''Tax''" "[]" None 1
      "projr (updateStatus ?db 1600 0 ACTIVE)" ]
  have d: "map status (bridgeBlocks (pauseWithSummary ?db 1600 1))
       = map (\<lambda>b. if block_id b = 1 then PAUSED else status b) (bridgeBlocks ?db)"
    by simp
  have e: "length (getActive ?db (Some ''2025-01-15'')) \<ge> 1"
    by (simp add: demo_block_run) (simp add: getActive_def active_blocks_def)
  have s0: "map status (bridgeBlocks ?db) = [PAUSED, ACTIVE]"
    by (simp add: demo_block_run)
  have s1: "length (getActive ?db (Some ''2025-01-15'')) = 1"
    using c e by (rule order_antisym)
  have s2: "map status (bridgeBlocks (fst (create ?db 1600 ''2025-01-15'' ''Tax'' [] None)))
        = [PAUSED, PAUSED, ACTIVE]"
    unfolding a by (simp add: demo_block_run pause_patch_def created_block_def)
  have s3: "map (map status \<circ> bridgeBlocks) [projr (updateStatus ?db 1600 0 ACTIVE)] = [[ACTIVE, PAUSED]]"
    using b by (simp add: demo_block_run)
  have s4: "map status (bridgeBlocks (pauseWithSummary ?db 1600 1)) = [PAUSED, PAUSED]"
    unfolding d by (simp add: demo_block_run)
  from s0 s1 s2 s3 inl s4 show ?thesis by (intro conjI)
qed

section \<open>Metadata updates: properties\<close>

lemma set_foldl_set_add: "set (foldl set_add acc xs) = set acc \<union> set xs"
  by (induction xs arbitrary: acc) (auto simp: set_add_def)

lemma new_Set_dedupe: "new_Set xs = dedupe_ordered xs"
proof (induction xs rule: rev_induct)
  case Nil
  then show ?case by (simp add: new_Set_def dedupe_ordered_def)
next
  case (snoc x xs)
  have "set (new_Set xs) = set xs" by (simp add: new_Set_def set_foldl_set_add)
  with snoc show ?case by (simp add: new_Set_def dedupe_ordered_def set_add_def)
qed

lemma merge_clamped_dedupe:
  "merge_clamped n existing supplied = take n (dedupe_ordered (existing @ supplied))"
proof -
  have "foldl set_add (new_Set existing) supplied = new_Set (existing @ supplied)"
    by (simp add: new_Set_def)
  then show ?thesis by (simp add: merge_clamped_def new_Set_dedupe)
qed

lemma distinct_dedupe: "distinct (dedupe_ordered xs)"
  by (simp add: dedupe_ordered_def)

lemma set_dedupe: "set (dedupe_ordered xs) = set xs"
  by (simp add: dedupe_ordered_def)

lemma merge_clamped_props:
  "distinct (merge_clamped n existing supplied)"
  "length (merge_clamped n existing supplied) \<le> n"
  "set (merge_clamped n existing supplied) \<subseteq> set existing \<union> set supplied"
proof -
  show "distinct (merge_clamped n existing supplied)"
    by (simp add: merge_clamped_dedupe distinct_dedupe)
  show "length (merge_clamped n existing supplied) \<le> n"
    by (simp add: merge_clamped_dedupe)
  have "set (take n (dedupe_ordered (existing @ supplied))) \<subseteq> set (dedupe_ordered (existing @ supplied))"
    by (rule set_take_subset)
  then show "set (merge_clamped n existing supplied) \<subseteq> set existing \<union> set supplied"
    by (simp add: merge_clamped_dedupe set_dedupe)
qed

lemma get_patched:
  assumes "\<And>b. block_id (f b) = block_id b"
  shows "bridgeBlocks_get (bridgeBlocks_patch tbl i f) i = map_option f (bridgeBlocks_get tbl i)"
  using assms by (induction tbl) (simp_all add: bridgeBlocks_get_def bridgeBlocks_patch_def)

text \<open>
  Claim C5, as amended. \<open>updateMetadata\<close> of a stored block writes each supplied field
  (summary, keywords, open loops, decisions) over the stored one and keeps the others: it
  neither merges nor clamps. The merge is what \<open>updateMetadataFromResponse\<close> does on a
  stored block: supplied keywords (and lower-cased topics), open loops and decisions are
  appended to the stored list as a deduplicated ordered set, of which the first 20 (10, 10)
  elements are stored, so the stored list is then without repetition and within its bound;
  a supplied non-empty summary is written over the stored one.
\<close>

theorem metadata_overwrite_and_merge:
  assumes "bridgeBlocks_get (bridgeBlocks db) i = Some blk"
  shows "(\<exists>db' b'. updateMetadata db now i sArg ksArg lsArg dsArg = Inr db'
            \<and> bridgeBlocks_get (bridgeBlocks db') i = Some b'
            \<and> summary b' = (case sArg of None \<Rightarrow> summary blk | Some s \<Rightarrow> Some s)
            \<and> block_keywords b' = (case ksArg of None \<Rightarrow> block_keywords blk | Some ks \<Rightarrow> ks)
            \<and> openLoops b' = (case lsArg of None \<Rightarrow> openLoops blk | Some ls \<Rightarrow> ls)
            \<and> decisionsMade b' = (case dsArg of None \<Rightarrow> decisionsMade blk | Some ds \<Rightarrow> ds))
       \<and> (\<exists>b'. bridgeBlocks_get (bridgeBlocks (updateMetadataFromResponse db now i m)) i = Some b'
            \<and> block_keywords b' =
                 (case (md_keywords m, md_topics m) of
                    (None, None) \<Rightarrow> block_keywords blk
                  | (Some ks, None) \<Rightarrow> take 20 (dedupe_ordered (block_keywords blk @ ks))
                  | (None, Some tps) \<Rightarrow> take 20 (dedupe_ordered (block_keywords blk @ map toLowerCase tps))
                  | (Some ks, Some tps) \<Rightarrow>
                      take 20 (dedupe_ordered (take 20 (dedupe_ordered (block_keywords blk @ ks))
                                               @ map toLowerCase tps)))
            \<and> openLoops b' =
                 (case md_openLoops m of
                    None \<Rightarrow> openLoops blk
                  | Some ls \<Rightarrow> take 10 (dedupe_ordered (openLoops blk @ ls)))
            \<and> decisionsMade b' =
                 (case md_decisionsMade m of
                    None \<Rightarrow> decisionsMade blk
                  | Some ds \<Rightarrow> take 10 (dedupe_ordered (decisionsMade blk @ ds)))
            \<and> summary b' =
                 (case md_summary m of
                    None \<Rightarrow> summary blk
                  | Some s \<Rightarrow> if s = [] then summary blk else Some s)
            \<and> (md_keywords m = None \<and> md_topics m = None
                 \<or> distinct (block_keywords b') \<and> length (block_keywords b') \<le> 20)
            \<and> (md_openLoops m = None \<or> distinct (openLoops b') \<and> length (openLoops b') \<le> 10)
            \<and> (md_decisionsMade m = None
                 \<or> distinct (decisionsMade b') \<and> length (decisionsMade b') \<le> 10))"
proof (rule conjI)
  show "\<exists>db' b'. updateMetadata db now i sArg ksArg lsArg dsArg = Inr db'
            \<and> bridgeBlocks_get (bridgeBlocks db') i = Some b'
            \<and> summary b' = (case sArg of None \<Rightarrow> summary blk | Some s \<Rightarrow> Some s)
            \<and> block_keywords b' = (case ksArg of None \<Rightarrow> block_keywords blk | Some ks \<Rightarrow> ks)
            \<and> openLoops b' = (case lsArg of None \<Rightarrow> openLoops blk | Some ls \<Rightarrow> ls)
            \<and> decisionsMade b' = (case dsArg of None \<Rightarrow> decisionsMade blk | Some ds \<Rightarrow> ds)"
    using assms by (simp add: updateMetadata_def get_patched)
next
  let ?b' = "the (bridgeBlocks_get (bridgeBlocks (updateMetadataFromResponse db now i m)) i)"
  have g: "bridgeBlocks_get (bridgeBlocks (updateMetadataFromResponse db now i m)) i = Some ?b'"
    using assms by (simp add: updateMetadataFromResponse_def Let_def get_patched)
  have kw: "block_keywords ?b' =
                 (case (md_keywords m, md_topics m) of
                    (None, None) \<Rightarrow> block_keywords blk
                  | (Some ks, None) \<Rightarrow> take 20 (dedupe_ordered (block_keywords blk @ ks))
                  | (None, Some tps) \<Rightarrow> take 20 (dedupe_ordered (block_keywords blk @ map toLowerCase tps))
                  | (Some ks, Some tps) \<Rightarrow>
                      take 20 (dedupe_ordered (take 20 (dedupe_ordered (block_keywords blk @ ks))
                                               @ map toLowerCase tps)))"
    using assms
    by (simp add: updateMetadataFromResponse_def Let_def get_patched merge_clamped_dedupe split: option.splits)
  have ol: "openLoops ?b' = (case md_openLoops m of None \<Rightarrow> openLoops blk
                  | Some ls \<Rightarrow> take 10 (dedupe_ordered (openLoops blk @ ls)))"
    using assms
    by (simp add: updateMetadataFromResponse_def Let_def get_patched merge_clamped_dedupe split: option.splits)
  have dm: "decisionsMade ?b' = (case md_decisionsMade m of None \<Rightarrow> decisionsMade blk
                  | Some ds \<Rightarrow> take 10 (dedupe_ordered (decisionsMade blk @ ds)))"
    using assms
    by (simp add: updateMetadataFromResponse_def Let_def get_patched merge_clamped_dedupe split: option.splits)
  have su: "summary ?b' = (case md_summary m of None \<Rightarrow> summary blk
                  | Some s \<Rightarrow> if s = [] then summary blk else Some s)"
    using assms
    by (simp add: updateMetadataFromResponse_def Let_def get_patched split: option.splits)
  have kwb: "md_keywords m = None \<and> md_topics m = None
                 \<or> distinct (block_keywords ?b') \<and> length (block_keywords ?b') \<le> 20"
    unfolding kw by (auto simp: distinct_dedupe split: option.splits)
  have olb: "md_openLoops m = None \<or> distinct (openLoops ?b') \<and> length (openLoops ?b') \<le> 10"
    unfolding ol by (auto simp: distinct_dedupe split: option.splits)
  have dmb: "md_decisionsMade m = None \<or> distinct (decisionsMade ?b') \<and> length (decisionsMade ?b') \<le> 10"
    unfolding dm by (auto simp: distinct_dedupe split: option.splits)
  from g kw ol dm su kwb olb dmb
  show "\<exists>b'. bridgeBlocks_get (bridgeBlocks (updateMetadataFromResponse db now i m)) i = Some b'
            \<and> block_keywords b' =
                 (case (md_keywords m, md_topics m) of
                    (None, None) \<Rightarrow> block_keywords blk
                  | (Some ks, None) \<Rightarrow> take 20 (dedupe_ordered (block_keywords blk @ ks))
                  | (None, Some tps) \<Rightarrow> take 20 (dedupe_ordered (block_keywords blk @ map toLowerCase tps))
                  | (Some ks, Some tps) \<Rightarrow>
                      take 20 (dedupe_ordered (take 20 (dedupe_ordered (block_keywords blk @ ks))
                                               @ map toLowerCase tps)))
            \<and> openLoops b' =
                 (case md_openLoops m of
                    None \<Rightarrow> openLoops blk
                  | Some ls \<Rightarrow> take 10 (dedupe_ordered (openLoops blk @ ls)))
            \<and> decisionsMade b' =
                 (case md_decisionsMade m of
                    None \<Rightarrow> decisionsMade blk
                  | Some ds \<Rightarrow> take 10 (dedupe_ordered (decisionsMade blk @ ds)))
            \<and> summary b' =
                 (case md_summary m of
                    None \<Rightarrow> summary blk
                  | Some s \<Rightarrow> if s = [] then summary blk else Some s)
            \<and> (md_keywords m = None \<and> md_topics m = None
                 \<or> distinct (block_keywords b') \<and> length (block_keywords b') \<le> 20)
            \<and> (md_openLoops m = None \<or> distinct (openLoops b') \<and> length (openLoops b') \<le> 10)
            \<and> (md_decisionsMade m = None
                 \<or> distinct (decisionsMade b') \<and> length (decisionsMade b') \<le> 10)"
    by (intro exI [of _ ?b'] conjI)
qed

theorem metadata_overwrite_and_merge_witness:
  "bridgeBlocks_get (bridgeBlocks (block_run demo_block_ops)) 1
     = Some (bridgeBlocks (block_run demo_block_ops) ! 1)
   \<and> map_option (\<lambda>b. (summary b, block_keywords b, openLoops b, decisionsMade b))
        (bridgeBlocks_get (bridgeBlocks
           (projr (updateMetadata (block_run demo_block_ops) 2000 1 None (Some [''sauce'', ''sauce'']) None None))) 1)
       = Some (None, [''sauce'', ''sauce''], [], [])
   \<and> map_option (\<lambda>b. (summary b, block_keywords b, openLoops b, decisionsMade b))
        (bridgeBlocks_get (bridgeBlocks
           (updateMetadataFromResponse (block_run demo_block_ops) 2000 1 demo_metadata)) 1)
       = Some (Some ''Pasta sauces'', [''pasta'', ''sauce'', ''Sauce'', ''italian''], [''buy basil''], [])"
proof -
  let ?db = "block_run demo_block_ops"
  let ?blk = "bridgeBlocks ?db ! Suc 0"
  have g: "bridgeBlocks_get (bridgeBlocks ?db) (Suc 0) = Some ?blk"
    by (simp add: demo_block_run bridgeBlocks_get_def)
  have blk: "summary ?blk = None" "block_keywords ?blk = [''pasta'']" "openLoops ?blk = []"
    "decisionsMade ?blk = []"
    by (simp_all add: demo_block_run)
  have m: "md_keywords demo_metadata = Some [''sauce'', ''pasta'', ''Sauce'', ''sauce'']"
    "md_topics demo_metadata = Some [''Italian'']" "md_summary demo_metadata = Some ''Pasta sauces''"
    "md_openLoops demo_metadata = Some [''buy basil'', ''buy basil'']"
    "md_decisionsMade demo_metadata = None"
    by (simp_all add: demo_metadata_def)
  from metadata_overwrite_and_merge [OF g, of 2000 None "Some [''sauce'', ''sauce'']" None None demo_metadata]
  obtain db' b' b'' where
    u: "updateMetadata ?db 2000 (Suc 0) None (Some [''sauce'', ''sauce'']) None None = Inr db'"
      "bridgeBlocks_get (bridgeBlocks db') (Suc 0) = Some b'"
      "summary b' = None" "block_keywords b' = [''sauce'', ''sauce'']" "openLoops b' = []"
      "decisionsMade b' = []"
    and r: "bridgeBlocks_get (bridgeBlocks (updateMetadataFromResponse ?db 2000 (Suc 0) demo_metadata)) (Suc 0) = Some b''"
      "block_keywords b'' = [''pasta'', ''sauce'', ''Sauce'', ''italian'']"
      "openLoops b'' = [''buy basil'']" "decisionsMade b'' = []" "summary b'' = Some ''Pasta sauces''"
    by (auto simp: blk m dedupe_ordered_def toLowerCase_def lower_char_def)
  from g u r show ?thesis by simp
qed

text \<open>
  The claim as stated fails for \<open>updateMetadata\<close>: on a block with the keyword \<open>pasta\<close>,
  supplying \<open>sauce\<close> twice stores \<open>sauce\<close> twice and loses \<open>pasta\<close>, which is not the
  deduplicated merge of the two lists.
\<close>

theorem updateMetadata_merge_counterexample:
  "map block_keywords (bridgeBlocks (block_run demo_block_ops)) = [[''contract'', ''law''], [''pasta'']]
   \<and> map_sum id (map block_keywords \<circ> bridgeBlocks)
        (updateMetadata (block_run demo_block_ops) 2000 1 None (Some [''sauce'', ''sauce'']) None None)
       = Inr [[''contract'', ''law''], [''sauce'', ''sauce'']]
   \<and> [''sauce'', ''sauce''] \<noteq> take 20 (dedupe_ordered ([''pasta''] @ [''sauce'', ''sauce'']))
   \<and> \<not> distinct [''sauce'', ''sauce'']"
  by (simp add: demo_block_run dedupe_ordered_def)
     (simp add: updateMetadata_def bridgeBlocks_get_def bridgeBlocks_patch_def)

section \<open>Eviction: properties\<close>

lemma evictByTimeInternal_tables:
  "turns (fst (evictByTimeInternal db now d)) = turns db"
  "bridgeBlocks (fst (evictByTimeInternal db now d)) = bridgeBlocks db"
  by (simp_all add: evictByTimeInternal_def Let_def split: prod.splits)

lemma evictBySpaceInternal_tables:
  "turns (fst (evictBySpaceInternal db now d)) = turns db"
  "bridgeBlocks (fst (evictBySpaceInternal db now d)) = bridgeBlocks db"
  by (simp_all add: evictBySpaceInternal_def Let_def)

lemma checkAndEvict_keeps_turns:
  "turns (fst (checkAndEvict db nowTime nowSpace d)) = turns db"
  "bridgeBlocks (fst (checkAndEvict db nowTime nowSpace d)) = bridgeBlocks db"
proof -
  obtain db1 ids1 where a: "evictByTimeInternal db nowTime d = (db1, ids1)" by (cases "evictByTimeInternal db nowTime d")
  obtain db2 ids2 where b: "evictBySpaceInternal db1 nowSpace d = (db2, ids2)" by (cases "evictBySpaceInternal db1 nowSpace d")
  have 1: "turns db1 = turns db" "bridgeBlocks db1 = bridgeBlocks db"
    using evictByTimeInternal_tables [of db nowTime d] a by simp_all
  have 2: "turns db2 = turns db1" "bridgeBlocks db2 = bridgeBlocks db1"
    using evictBySpaceInternal_tables [of db1 nowSpace d] b by simp_all
  show "turns (fst (checkAndEvict db nowTime nowSpace d)) = turns db"
    "bridgeBlocks (fst (checkAndEvict db nowTime nowSpace d)) = bridgeBlocks db"
    by (simp_all add: checkAndEvict_def Let_def a b 1 2)
qed

lemma day_turns_after_checkAndEvict:
  "day_turns (fst (checkAndEvict db nowTime nowSpace d)) d' = day_turns db d'"
  by (simp add: day_turns_def checkAndEvict_keeps_turns)

lemma length_long_message: "length long_message = 12000"
  by (simp add: long_message_def)

lemma heavy_day_turns:
  "day_turns heavy_day_db ''2025-01-15'' = turns heavy_day_db"
  by (simp add: day_turns_def heavy_day_db_def blocks_by_day_def turns_by_block_def)

text \<open>
  Claim C4 says that after \<open>checkAndEvict\<close> the day holds at most 30 turns and at most
  5000 estimated tokens, the oldest turns having been evicted until both bounds hold.
  The code does not get there. \<open>checkAndEvict\<close> never changes the tables of turns and
  blocks (lemmas above): it reports ids and updates topic affinities. And the space policy
  counts turns only: the token estimate it computes for every turn is never compared with
  \<open>MAX_TIER2_TOKENS\<close>. On the day below, two turns of 3000 tokens each, it reports no turn
  at all, and the day stays at 6000 tokens.
\<close>

theorem checkAndEvict_leaves_day_over_token_bound:
  "evictedTurnIds (snd (checkAndEvict heavy_day_db 4000 4000 ''2025-01-15'')) = []
   \<and> fst (checkAndEvict heavy_day_db 4000 4000 ''2025-01-15'') = heavy_day_db
   \<and> length (day_turns (fst (checkAndEvict heavy_day_db 4000 4000 ''2025-01-15'')) ''2025-01-15'') = 2
   \<and> day_token_sum (fst (checkAndEvict heavy_day_db 4000 4000 ''2025-01-15'')) ''2025-01-15'' = 6000
   \<and> MAX_TIER2_TOKENS < day_token_sum (fst (checkAndEvict heavy_day_db 4000 4000 ''2025-01-15'')) ''2025-01-15''"
proof -
  have t: "evictByTimeInternal heavy_day_db 4000 ''2025-01-15'' = (heavy_day_db, [])"
    by (simp add: evictByTimeInternal_def heavy_day_db_def blocks_by_day_def turns_by_block_def
          TIME_THRESHOLD_HOURS_def Let_def)
  have n: "length (day_entries heavy_day_db ''2025-01-15'') = 2"
    by (simp add: day_entries_def heavy_day_db_def blocks_by_day_def turns_by_block_def)
  have s: "evictBySpaceInternal heavy_day_db 4000 ''2025-01-15'' = (heavy_day_db, [])"
    by (simp add: evictBySpaceInternal_def Let_def n MAX_TIER2_TURNS_def)
  have c: "checkAndEvict heavy_day_db 4000 4000 ''2025-01-15''
      = (heavy_day_db, \<lparr> timeEvicted = 0, spaceEvicted = 0, totalEvicted = 0, evictedTurnIds = [] \<rparr>)"
    by (simp add: checkAndEvict_def Let_def t s new_Set_def)
  have tok: "day_token_sum heavy_day_db ''2025-01-15'' = 6000"
    by (simp add: day_token_sum_def heavy_day_turns)
       (simp add: heavy_day_db_def tokenEstimate_def length_long_message)
  have len: "length (day_turns heavy_day_db ''2025-01-15'') = 2"
    by (simp add: heavy_day_turns) (simp add: heavy_day_db_def)
  show ?thesis by (simp add: c tok len MAX_TIER2_TOKENS_def)
qed

section \<open>Compression decision: properties\<close>

text \<open>
  Claim C6, as amended. For a non-empty list of recent queries: when the query matches
  an explicit-reference pattern the decision is \<open>NO_COMPRESSION\<close> with
  \<open>hasExplicitReference\<close> and \<open>keepVerbatimCount\<close> the number of recent queries (this early
  result is not clamped); otherwise the decision follows the table on the distance \<open>d\<close>
  and the gap \<open>h\<close> in hours: \<open>d > 0.8\<close> with \<open>h > 12\<close> gives \<open>COMPRESS_ALL\<close> keeping 5,
  \<open>d > 0.8\<close> with \<open>h \<le> 12\<close> gives \<open>COMPRESS_PARTIAL\<close> keeping 10, \<open>0.6 < d \<le> 0.8\<close> with
  \<open>h > 12\<close> gives \<open>COMPRESS_PARTIAL\<close> keeping 10, every other case gives
  \<open>NO_COMPRESSION\<close> keeping all recent queries, and on this path \<open>keepVerbatimCount\<close> is
  clamped to the hard cap 15.
\<close>

theorem decideCompression_table:
  assumes "recentQueries \<noteq> []"
  shows "(detectExplicitReference q \<longrightarrow>
            level (decideCompression q recentQueries lastTs now) = NO_COMPRESSION
          \<and> hasExplicitReference (decideCompression q recentQueries lastTs now)
          \<and> keepVerbatimCount (decideCompression q recentQueries lastTs now) = length recentQueries)
       \<and> (\<not> detectExplicitReference q \<longrightarrow>
            (let d = calculateSimpleDistance q (join '' '' (slice_last3 recentQueries));
                 h = real_of_int (now - lastTs) / 3600000;
                 r = decideCompression q recentQueries lastTs now
             in semanticDistance r = d \<and> timeGapHours r = h \<and> \<not> hasExplicitReference r
              \<and> (d > 0.8 \<and> h > 12 \<longrightarrow> level r = COMPRESS_ALL \<and> keepVerbatimCount r = 5)
              \<and> (d > 0.8 \<and> h \<le> 12 \<longrightarrow> level r = COMPRESS_PARTIAL \<and> keepVerbatimCount r = 10)
              \<and> (0.6 < d \<and> d \<le> 0.8 \<and> h > 12 \<longrightarrow>
                    level r = COMPRESS_PARTIAL \<and> keepVerbatimCount r = 10)
              \<and> (0.6 < d \<and> d \<le> 0.8 \<and> h \<le> 12 \<longrightarrow>
                    level r = NO_COMPRESSION \<and> keepVerbatimCount r = min (length recentQueries) 15)
              \<and> (d \<le> 0.6 \<longrightarrow>
                    level r = NO_COMPRESSION \<and> keepVerbatimCount r = min (length recentQueries) 15)
              \<and> keepVerbatimCount r \<le> 15))"
  using assms
  by (simp add: decideCompression_def Let_def VERY_DIFFERENT_THRESHOLD_def
        SOMEWHAT_DIFFERENT_THRESHOLD_def LONG_GAP_HOURS_def MAX_VERBATIM_HARD_LIMIT_def
        COMPRESS_ALL_KEEP_def COMPRESS_PARTIAL_KEEP_def)

theorem decideCompression_table_witness:
  "[''Contract terms outlined''] \<noteq> []
   \<and> detectExplicitReference ''As we discussed, what were the contract terms?''
   \<and> level (decideCompression ''As we discussed, what were the contract terms?''
               [''Contract terms outlined''] 0 300000) = NO_COMPRESSION
   \<and> hasExplicitReference (decideCompression ''As we discussed, what were the contract terms?''
               [''Contract terms outlined''] 0 300000)
   \<and> keepVerbatimCount (decideCompression ''As we discussed, what were the contract terms?''
               [''Contract terms outlined''] 0 300000) = 1
   \<and> \<not> detectExplicitReference ''What about taxes?''
   \<and> level (decideCompression ''What about taxes?''
               [''We discussed contracts yesterday'', ''The meeting was productive''] 0 7200000)
       = COMPRESS_PARTIAL
   \<and> keepVerbatimCount (decideCompression ''What about taxes?''
               [''We discussed contracts yesterday'', ''The meeting was productive''] 0 7200000) = 10
   \<and> level (decideCompression ''What about taxes?''
               [''We discussed contracts yesterday'', ''The meeting was productive''] 0 72000000)
       = COMPRESS_ALL
   \<and> keepVerbatimCount (decideCompression ''What about taxes?''
               [''We discussed contracts yesterday'', ''The meeting was productive''] 0 72000000) = 5"
proof -
  have r1: "detectExplicitReference ''As we discussed, what were the contract terms?''"
    by code_simp
  have r2: "\<not> detectExplicitReference ''What about taxes?''"
    by code_simp
  have d: "calculateSimpleDistance ''What about taxes?''
      (join '' '' (slice_last3 [''We discussed contracts yesterday'', ''The meeting was productive''])) = 1"
    by (simp add: slice_last3_def calculateSimpleDistance_def distance_words_def split_class_def
          toLowerCase_def lower_char_def is_word_char_def new_Set_def set_add_def)
  from decideCompression_table [of "[''Contract terms outlined'']"
      "''As we discussed, what were the contract terms?''" 0 300000] r1
  have a: "level (decideCompression ''As we discussed, what were the contract terms?''
               [''Contract terms outlined''] 0 300000) = NO_COMPRESSION
     \<and> hasExplicitReference (decideCompression ''As we discussed, what were the contract terms?''
               [''Contract terms outlined''] 0 300000)
     \<and> keepVerbatimCount (decideCompression ''As we discussed, what were the contract terms?''
               [''Contract terms outlined''] 0 300000) = 1"
    by simp
  from decideCompression_table [of "[''We discussed contracts yesterday'', ''The meeting was productive'']"
      "''What about taxes?''" 0 7200000] r2 d
  have b: "level (decideCompression ''What about taxes?''
               [''We discussed contracts yesterday'', ''The meeting was productive''] 0 7200000)
       = COMPRESS_PARTIAL
     \<and> keepVerbatimCount (decideCompression ''What about taxes?''
               [''We discussed contracts yesterday'', ''The meeting was productive''] 0 7200000) = 10"
    by (simp add: Let_def)
  from decideCompression_table [of "[''We discussed contracts yesterday'', ''The meeting was productive'']"
      "''What about taxes?''" 0 72000000] r2 d
  have c: "level (decideCompression ''What about taxes?''
               [''We discussed contracts yesterday'', ''The meeting was productive''] 0 72000000)
       = COMPRESS_ALL
     \<and> keepVerbatimCount (decideCompression ''What about taxes?''
               [''We discussed contracts yesterday'', ''The meeting was productive''] 0 72000000) = 5"
    by (simp add: Let_def)
  from r1 r2 a b c show ?thesis by simp
qed

text \<open>
  The claim as stated has \<open>keepVerbatimCount\<close> always clamped to 15. With sixteen recent
  queries and an explicit reference in the query the count is 16.
\<close>

theorem decideCompression_hard_cap_counterexample:
  "replicate 16 ''Contract terms outlined'' \<noteq> []
   \<and> detectExplicitReference ''As we discussed, what were the contract terms?''
   \<and> keepVerbatimCount (decideCompression ''As we discussed, what were the contract terms?''
        (replicate 16 ''Contract terms outlined'') 0 300000) = 16
   \<and> \<not> keepVerbatimCount (decideCompression ''As we discussed, what were the contract terms?''
        (replicate 16 ''Contract terms outlined'') 0 300000) \<le> 15"
proof -
  have r1: "detectExplicitReference ''As we discussed, what were the contract terms?''"
    by code_simp
  show ?thesis using r1 by (simp add: decideCompression_def)
qed

section \<open>Topic-shift detection: properties\<close>









section \<open>Chunking: properties\<close>

lemma words_run_spaces:
  "\<forall>c \<in> set sp. is_space c \<Longrightarrow> words_run [] (sp @ y) = words_run [] y"
  by (induction sp) simp_all

lemma words_run_sep:
  "is_space c \<Longrightarrow> words_run acc (x @ c # y) = words_run acc x @ words_run [] y"
  by (induction x arbitrary: acc) simp_all

lemma ws_words_sep:
  assumes "sep \<noteq> []" "\<forall>c \<in> set sep. is_space c"
  shows "ws_words (x @ sep @ y) = ws_words x @ ws_words y"
proof -
  obtain c sp where s: "sep = c # sp" using assms(1) by (cases sep) auto
  with assms(2) have c: "is_space c" and sp: "\<forall>d \<in> set sp. is_space d" by simp_all
  show ?thesis
    unfolding ws_words_def s using words_run_sep [OF c, of "[]" x "sp @ y"] words_run_spaces [OF sp, of y]
    by simp
qed

lemma ws_words_dropWhile: "ws_words (dropWhile is_space s) = ws_words s"
proof -
  have "ws_words (takeWhile is_space s @ dropWhile is_space s) = ws_words (dropWhile is_space s)"
    unfolding ws_words_def by (rule words_run_spaces) (auto dest: set_takeWhileD)
  then show ?thesis by simp
qed

lemma words_run_trailing:
  "\<forall>c \<in> set sp. is_space c \<Longrightarrow> words_run acc (x @ sp) = words_run acc x"
proof (induction x arbitrary: acc)
  case Nil
  then show ?case
  proof (induction sp)
    case Nil
    then show ?case by simp
  next
    case (Cons c sp)
    then have "words_run [] sp = []" using words_run_spaces [of sp "[]"] by simp
    with Cons show ?case by simp
  qed
next
  case (Cons d x)
  then show ?case by simp
qed

lemma ws_words_trimEnd: "ws_words (trimEnd s) = ws_words s"
proof -
  let ?t = "rev (takeWhile is_space (rev s))"
  have split: "s = trimEnd s @ ?t"
    unfolding trimEnd_def by (metis rev_append rev_rev_ident takeWhile_dropWhile_id)
  have "\<forall>c \<in> set ?t. is_space c" by (auto dest: set_takeWhileD)
  from words_run_trailing [OF this, of "[]" "trimEnd s"] split show ?thesis
    by (simp add: ws_words_def)
qed

lemma ws_words_trim: "ws_words (trim s) = ws_words s"
  by (simp add: trim_def ws_words_trimEnd ws_words_dropWhile)

lemma ws_words_Nil: "ws_words [] = []"
  by (simp add: ws_words_def)

lemma concat_words_trimmed:
  "concat (map ws_words (filter (\<lambda>p. p \<noteq> []) (map trim ps))) = concat (map ws_words ps)"
proof (induction ps)
  case Nil
  then show ?case by simp
next
  case (Cons p ps)
  show ?case
  proof (cases "trim p = []")
    case True
    then have "ws_words p = []" using ws_words_trim [of p] by (simp add: ws_words_Nil)
    with True Cons show ?thesis by simp
  next
    case False
    with Cons show ?thesis by (simp add: ws_words_trim)
  qed
qed

lemma ws_words_join:
  assumes "sep \<noteq> []" "\<forall>c \<in> set sep. is_space c"
  shows "ws_words (join sep ps) = concat (map ws_words ps)"
proof (induction ps)
  case Nil
  then show ?case by (simp add: ws_words_Nil)
next
  case (Cons x ps)
  show ?case
  proof (cases ps)
    case Nil
    then show ?thesis by simp
  next
    case (Cons y ys)
    with Cons.IH ws_words_sep [OF assms, of x "join sep (y # ys)"] show ?thesis by simp
  qed
qed

lemma split_sentences_words:
  "concat (map ws_words (split_sentences_run acc s)) = ws_words (rev acc @ s)"
proof (induction acc s rule: split_sentences_run.induct)
  case (1 acc)
  then show ?case by simp
next
  case (2 acc c cs)
  show ?case
  proof (cases "is_space c \<and> (case acc of [] \<Rightarrow> False | a # _ \<Rightarrow> a \<in> set ''.!?'')")
    case True
    then have c: "is_space c" by simp
    have "ws_words (rev acc @ c # cs) = ws_words (rev acc) @ ws_words cs"
      unfolding ws_words_def by (rule words_run_sep [OF c])
    with True 2 show ?thesis by (simp add: ws_words_dropWhile)
  next
    case False
    with 2 show ?thesis by auto
  qed
qed

lemma para_sep_len_le:
  "para_sep_len cs = Some n \<Longrightarrow> n \<le> length (takeWhile is_space cs)"
  by (auto simp: para_sep_len_def Let_def split: if_splits)

lemma take_of_run_spaces:
  assumes "n \<le> length (takeWhile is_space cs)"
  shows "\<forall>c \<in> set (take n cs). is_space c"
proof -
  have "take n cs = take n (takeWhile is_space cs @ dropWhile is_space cs)" by simp
  also have "\<dots> = take n (takeWhile is_space cs)" using assms by (simp del: takeWhile_dropWhile_id)
  finally have "set (take n cs) \<subseteq> set (takeWhile is_space cs)" by (simp add: set_take_subset)
  then show ?thesis by (auto dest: set_takeWhileD)
qed

lemma split_paragraphs_words:
  "concat (map ws_words (split_paragraphs_run acc s)) = ws_words (rev acc @ s)"
proof (induction acc s rule: split_paragraphs_run.induct)
  case (1 acc)
  then show ?case by simp
next
  case (2 acc c cs)
  show ?case
  proof (cases "c = CHR 0x0A")
    case True
    show ?thesis
    proof (cases "para_sep_len cs")
      case None
      with True 2 show ?thesis by simp
    next
      case (Some n)
      have c: "is_space c" using True by (simp add: is_space_def)
      have sp: "\<forall>d \<in> set (take n cs). is_space d"
        by (rule take_of_run_spaces [OF para_sep_len_le [OF Some]])
      have "ws_words (take n cs @ drop n cs) = ws_words (drop n cs)"
        unfolding ws_words_def by (rule words_run_spaces [OF sp])
      then have d: "ws_words (drop n cs) = ws_words cs" by simp
      have "ws_words (rev acc @ c # cs) = ws_words (rev acc) @ ws_words cs"
        unfolding ws_words_def by (rule words_run_sep [OF c])
      with True Some 2 d show ?thesis by simp
    qed
  next
    case False
    with 2 show ?thesis by simp
  qed
qed

lemma splitIntoSentences_words:
  "concat (map ws_words (splitIntoSentences p)) = ws_words p"
  by (simp add: splitIntoSentences_def concat_words_trimmed split_sentences_words)

lemma splitIntoParagraphs_words:
  "concat (map ws_words (splitIntoParagraphs s)) = ws_words s"
proof (cases "filter (\<lambda>p. p \<noteq> []) (map trim (split_paragraphs_run [] s)) = [] \<and> trim s \<noteq> []")
  case True
  then show ?thesis by (simp add: splitIntoParagraphs_def Let_def ws_words_trim)
next
  case False
  then have "splitIntoParagraphs s = filter (\<lambda>p. p \<noteq> []) (map trim (split_paragraphs_run [] s))"
    by (auto simp: splitIntoParagraphs_def Let_def)
  then show ?thesis by (simp add: concat_words_trimmed split_paragraphs_words)
qed

lemma concat_words_run: "concat (words_run acc s) = rev acc @ strip_ws s"
  by (induction s arbitrary: acc) (simp_all add: strip_ws_def)

lemma concat_ws_words: "concat (ws_words s) = strip_ws s"
  by (simp add: ws_words_def concat_words_run)

lemma strip_ws_concat: "strip_ws (concat ps) = concat (map strip_ws ps)"
  by (induction ps) (simp_all add: strip_ws_def)

lemma concat_map_concat: "concat (map concat xss) = concat (concat xss)"
  by (induction xss) simp_all

lemma splitIntoSentences_strip:
  "strip_ws (concat (splitIntoSentences p)) = strip_ws p"
proof -
  have "strip_ws (concat (splitIntoSentences p)) = concat (map concat (map ws_words (splitIntoSentences p)))"
    by (simp add: strip_ws_concat concat_ws_words comp_def)
  also have "\<dots> = concat (concat (map ws_words (splitIntoSentences p)))"
    by (rule concat_map_concat)
  also have "\<dots> = strip_ws p"
    by (simp add: splitIntoSentences_words concat_ws_words)
  finally show ?thesis .
qed

lemma chunk_sentences_props:
  "list_all (\<lambda>c. chunk_type c = Sentence \<and> parentChunkId c = Some pid)
     (chunk_sentences gen tid pid calls si ss)"
  "map textVerbatim (chunk_sentences gen tid pid calls si ss) = ss"
  by (induction ss arbitrary: calls si) simp_all

lemma chunk_sentences_all_sentence:
  "\<forall>c \<in> set (chunk_sentences gen tid pid calls si ss). chunk_type c = Sentence"
  by (induction ss arbitrary: calls si) simp_all

lemma chunk_paragraphs_head:
  "takeWhile (\<lambda>x. chunk_type x = Sentence) (chunk_paragraphs gen tid calls pindex si ps) = []"
  "dropWhile (\<lambda>x. chunk_type x = Sentence) (chunk_paragraphs gen tid calls pindex si ps)
     = chunk_paragraphs gen tid calls pindex si ps"
  by (cases ps; simp add: Let_def)+

lemma paragraph_texts_chunk_paragraphs:
  "paragraph_texts (chunk_paragraphs gen tid calls pindex si ps) = ps"
proof (induction ps arbitrary: calls pindex si)
  case Nil
  then show ?case by (simp add: paragraph_texts_def)
next
  case (Cons p ps)
  have "filter (\<lambda>c. chunk_type c = Paragraph)
          (chunk_sentences gen tid (generateChunkId Paragraph pindex (gen calls)) (Suc calls) si
             (splitIntoSentences p)) = []"
    using chunk_sentences_all_sentence by (auto simp: filter_empty_conv)
  with Cons.IH show ?case
    by (simp add: paragraph_texts_def Let_def)
qed

lemma sentence_join_words:
  "ws_words (join '' '' (splitIntoSentences p)) = ws_words p"
proof -
  have "ws_words (join '' '' (splitIntoSentences p)) = concat (map ws_words (splitIntoSentences p))"
    by (rule ws_words_join) (simp_all add: is_space_def)
  then show ?thesis by (simp add: splitIntoSentences_words)
qed

lemma paragraph_groups_step:
  "paragraph_groups (chunk_paragraphs gen tid calls pindex si (p # ps))
     = (\<lparr> chunkId = generateChunkId Paragraph pindex (gen calls), chunk_type = Paragraph,
           textVerbatim = p, lexicalFilters = extractKeywords p, parentChunkId = None,
           chunk_turnId = tid, tokenCount = estimateTokenCount p \<rparr>,
        chunk_sentences gen tid (generateChunkId Paragraph pindex (gen calls)) (Suc calls) si
          (splitIntoSentences p))
       # paragraph_groups
           (chunk_paragraphs gen tid (Suc calls + length (splitIntoSentences p)) (Suc pindex)
              (si + length (splitIntoSentences p)) ps)"
proof -
  let ?pid = "generateChunkId Paragraph pindex (gen calls)"
  let ?S = "chunk_sentences gen tid ?pid (Suc calls) si (splitIntoSentences p)"
  let ?R = "chunk_paragraphs gen tid (Suc calls + length (splitIntoSentences p)) (Suc pindex)
              (si + length (splitIntoSentences p)) ps"
  have tw: "takeWhile (\<lambda>x. chunk_type x = Sentence) (?S @ ?R) = ?S"
    using chunk_sentences_all_sentence [of gen tid ?pid "Suc calls" si "splitIntoSentences p"]
    by (simp add: takeWhile_append2 chunk_paragraphs_head)
  have dw: "dropWhile (\<lambda>x. chunk_type x = Sentence) (?S @ ?R) = ?R"
    using chunk_sentences_all_sentence [of gen tid ?pid "Suc calls" si "splitIntoSentences p"]
    by (simp add: dropWhile_append2 chunk_paragraphs_head)
  show ?thesis using tw dw by (simp add: Let_def)
qed

lemma paragraph_group_ok:
  "group_ok (\<lparr> chunkId = pid, chunk_type = Paragraph, textVerbatim = p, lexicalFilters = ks,
               parentChunkId = None, chunk_turnId = tid, tokenCount = n \<rparr>,
             chunk_sentences gen tid pid calls si (splitIntoSentences p))"
  by (simp add: group_ok_def chunk_sentences_props sentence_join_words splitIntoSentences_strip)

lemma paragraph_groups_ok:
  "list_all group_ok (paragraph_groups (chunk_paragraphs gen tid calls pindex si ps))"
proof (induction ps arbitrary: calls pindex si)
  case Nil
  then show ?case by simp
next
  case (Cons p ps)
  show ?case
    unfolding paragraph_groups_step using Cons.IH by (simp add: paragraph_group_ok)
qed

lemma paragraph_groups_texts:
  "map (textVerbatim \<circ> fst) (paragraph_groups (chunk_paragraphs gen tid calls pindex si ps)) = ps"
proof (induction ps arbitrary: calls pindex si)
  case Nil
  then show ?case by simp
next
  case (Cons p ps)
  show ?case
    unfolding paragraph_groups_step using Cons.IH by simp
qed

lemma paragraph_groups_sentences:
  "map (\<lambda>g. (textVerbatim (fst g), map textVerbatim (snd g)))
       (paragraph_groups (chunk_paragraphs gen tid calls pindex si ps))
     = map (\<lambda>p. (p, splitIntoSentences p)) ps"
proof (induction ps arbitrary: calls pindex si)
  case Nil
  then show ?case by simp
next
  case (Cons p ps)
  show ?case
    unfolding paragraph_groups_step using Cons.IH by (simp add: chunk_sentences_props)
qed

lemma paragraph_texts_chunkText: "paragraph_texts (chunkText s tid gen) = splitIntoParagraphs s"
  by (simp add: chunkText_def paragraph_texts_chunk_paragraphs)

text \<open>
  Claim C9, as amended. For every input text, the paragraph chunks of \<open>chunkText\<close>, joined
  in order with blank-line separators, equal the text up to white-space normalisation:
  both have the same words. Every paragraph chunk is followed by its sentence chunks, which
  name it as their parent; joined with single spaces they have the words of the paragraph,
  and concatenated they equal the paragraph once white space is removed.
\<close>

theorem chunker_round_trip_up_to_whitespace:
  "ws_words (join [CHR 0x0A, CHR 0x0A] (paragraph_texts (chunkText s tid gen))) = ws_words s
   \<and> map (textVerbatim \<circ> fst) (paragraph_groups (chunkText s tid gen))
       = paragraph_texts (chunkText s tid gen)
   \<and> list_all group_ok (paragraph_groups (chunkText s tid gen))"
proof -
  have "ws_words (join [CHR 0x0A, CHR 0x0A] (splitIntoParagraphs s))
      = concat (map ws_words (splitIntoParagraphs s))"
    by (rule ws_words_join) (simp_all add: is_space_def)
  then have "ws_words (join [CHR 0x0A, CHR 0x0A] (paragraph_texts (chunkText s tid gen))) = ws_words s"
    by (simp add: paragraph_texts_chunkText splitIntoParagraphs_words)
  then show ?thesis
    by (simp add: paragraph_groups_ok paragraph_groups_texts chunkText_def paragraph_texts_chunk_paragraphs)
qed

lemmas chunk_eval_defs = splitIntoParagraphs_def splitIntoSentences_def para_sep_len_def is_space_def
  trim_def trimEnd_def ws_words_def

theorem chunker_round_trip_up_to_whitespace_witness:
  "ws_words two_paragraph_text = [''Hi'', ''there.'', ''Bye!'', ''Ok'']
   \<and> paragraph_texts (chunkText two_paragraph_text ''turn-001'' chunk_oracle) = [''Hi there.  Bye!'', ''Ok'']
   \<and> ws_words (join [CHR 0x0A, CHR 0x0A]
         (paragraph_texts (chunkText two_paragraph_text ''turn-001'' chunk_oracle)))
       = [''Hi'', ''there.'', ''Bye!'', ''Ok'']
   \<and> map (\<lambda>g. (textVerbatim (fst g), map textVerbatim (snd g)))
         (paragraph_groups (chunkText two_paragraph_text ''turn-001'' chunk_oracle))
       = [(''Hi there.  Bye!'', [''Hi there.'', ''Bye!'']), (''Ok'', [''Ok''])]
   \<and> list_all group_ok (paragraph_groups (chunkText two_paragraph_text ''turn-001'' chunk_oracle))"
proof -
  have w: "ws_words two_paragraph_text = [''Hi'', ''there.'', ''Bye!'', ''Ok'']"
    by (simp add: two_paragraph_text_def ws_words_def is_space_def)
  have ps: "splitIntoParagraphs two_paragraph_text = [''Hi there.  Bye!'', ''Ok'']"
    by (simp add: two_paragraph_text_def chunk_eval_defs)
  have ss: "splitIntoSentences ''Hi there.  Bye!'' = [''Hi there.'', ''Bye!'']"
    "splitIntoSentences ''Ok'' = [''Ok'']"
    by (simp_all add: chunk_eval_defs)
  have g: "map (\<lambda>g. (textVerbatim (fst g), map textVerbatim (snd g)))
         (paragraph_groups (chunkText two_paragraph_text ''turn-001'' chunk_oracle))
       = [(''Hi there.  Bye!'', [''Hi there.'', ''Bye!'']), (''Ok'', [''Ok''])]"
    by (simp add: chunkText_def paragraph_groups_sentences ps ss del: chunk_paragraphs.simps)
  from chunker_round_trip_up_to_whitespace [of two_paragraph_text "''turn-001''" chunk_oracle] w g
    paragraph_texts_chunkText [of two_paragraph_text "''turn-001''" chunk_oracle] ps
  show ?thesis by simp
qed

text \<open>
  The claim as stated allows a difference in trailing white space only. A third line feed
  between two paragraphs is lost, and so is leading white space: the joined paragraphs
  differ from the text before its end.
\<close>

theorem chunker_trailing_whitespace_counterexample:
  "paragraph_texts (chunkText (''a'' @ [CHR 0x0A, CHR 0x0A, CHR 0x0A] @ ''b'') ''turn-001'' chunk_oracle)
     = [''a'', ''b'']
   \<and> trimEnd (join [CHR 0x0A, CHR 0x0A]
        (paragraph_texts (chunkText (''a'' @ [CHR 0x0A, CHR 0x0A, CHR 0x0A] @ ''b'') ''turn-001'' chunk_oracle)))
       \<noteq> trimEnd (''a'' @ [CHR 0x0A, CHR 0x0A, CHR 0x0A] @ ''b'')
   \<and> paragraph_texts (chunkText '' a'' ''turn-001'' chunk_oracle) = [''a'']
   \<and> trimEnd (join [CHR 0x0A, CHR 0x0A] (paragraph_texts (chunkText '' a'' ''turn-001'' chunk_oracle)))
       \<noteq> trimEnd '' a''"
proof -
  have a: "splitIntoParagraphs (''a'' @ [CHR 0x0A, CHR 0x0A, CHR 0x0A] @ ''b'') = [''a'', ''b'']"
    by (simp add: chunk_eval_defs)
  have b: "splitIntoParagraphs '' a'' = [''a'']"
    by (simp add: chunk_eval_defs)
  show ?thesis
    unfolding paragraph_texts_chunkText a b by (simp add: trimEnd_def is_space_def)
qed

section \<open>Hydrator: properties\<close>

lemma lit_050: "num_lit 0.50 = Fin (1 / 2)"
proof -
  have "fl (1 / 2) = Fin (1 / 2)"
  proof (rule fl_exact [where n = 1 and k = "- 1"])
    show "(1 / 2 :: real) = of_int 1 * pow2 (- 1)" by (simp add: pow2_def)
    show "expo (1 / 2) \<le> - 1"
      using expo_upper [of "- 53" "1 / 2"] by (simp add: pow2_def)
    show "\<bar>1 / 2 :: real\<bar> < pow2 1024" using pow2_strict_mono [of 0 1024] by (simp add: pow2_def)
  qed
  then show ?thesis by (simp add: num_lit_def)
qed

lemma lit_030: "num_lit 0.30 = Fin (5404319552844595 / 2 ^ 54)"
proof -
  have r: "round_even (3 / 10 / pow2 (- 54)) = 5404319552844595"
    by (rule round_even_near) (simp add: pow2_def)
  have "fl (3 / 10) = Fin (of_int 5404319552844595 * pow2 (- 54))"
    by (rule fl_eval [OF _ _ _ _ r]) (simp_all add: pow2_def)
  then show ?thesis by (simp add: pow2_def num_lit_def)
qed

lemma lit_010: "num_lit 0.10 = Fin (7205759403792794 / 2 ^ 56)"
proof -
  have r: "round_even (1 / 10 / pow2 (- 56)) = 7205759403792794"
    by (rule round_even_near) (simp add: pow2_def)
  have "fl (1 / 10) = Fin (of_int 7205759403792794 * pow2 (- 56))"
    by (rule fl_eval [OF _ _ _ _ r]) (simp_all add: pow2_def)
  then show ?thesis by (simp add: pow2_def num_lit_def)
qed

lemma floor_fl_scaled:
  fixes R k :: int and d :: real
  assumes R: "\<bar>R\<bar> \<le> 2 ^ 47"
    and d: "0 < d" "d \<le> 1 / 2" "\<bar>d - of_int k / 10\<bar> \<le> d * pow2 (- 54)"
  shows "\<exists>y. fl (of_int R * d) = Fin y \<and> \<lfloor>y\<rfloor> = (k * R) div 10"
proof (cases "R = 0")
  case True
  then show ?thesis by simp
next
  case False
  define x where "x = of_int R * d"
  define q where "q = real_of_int (k * R) / 10"
  define n where "n = (k * R) div 10"
  define p where "p = pow2 (expo x)"
  have ppos: "0 < p" by (simp add: p_def)
  have absx: "\<bar>x\<bar> = \<bar>real_of_int R\<bar> * d" using d(1) by (simp add: x_def abs_mult)
  have "\<bar>real_of_int R\<bar> \<le> 2 ^ 47"
  proof -
    have "real_of_int \<bar>R\<bar> \<le> real_of_int (2 ^ 47)" using R by (simp only: of_int_le_iff)
    then show ?thesis by simp
  qed
  then have "\<bar>real_of_int R\<bar> * d \<le> 2 ^ 47 * (1 / 2)"
    using d by (intro mult_mono) simp_all
  then have xb: "\<bar>x\<bar> < pow2 47" using absx by (simp add: pow2_def)
  then have "\<bar>x\<bar> < pow2 1023" using pow2_strict_mono [of 47 1023] by simp
  from fl_approx [OF this] obtain m where
    m: "fl x = Fin (of_int m * p)" and err: "\<bar>of_int m * p - x\<bar> \<le> p / 2"
    unfolding p_def by blast
  have e6: "expo x \<le> - 6" using xb by (intro expo_upper) simp_all
  then have "p \<le> pow2 (- 6)" unfolding p_def by (rule pow2_mono)
  then have p64: "p \<le> 1 / 64" by (simp add: pow2_def)
  have "\<bar>x\<bar> < pow2 1024" using xb pow2_strict_mono [of 47 1024] by simp
  then have "\<bar>x\<bar> < pow2 (expo x + 53)" by (rule expo_strict)
  then have xs: "\<bar>x\<bar> < p * pow2 53" by (simp add: p_def pow2_add)
  have "pow2 53 * pow2 (- 54) = pow2 (- 1)" using pow2_add [of 53 "- 54"] by simp
  then have h: "pow2 53 * pow2 (- 54) = 1 / 2" by (simp add: pow2_def)
  have "\<bar>x - q\<bar> = \<bar>real_of_int R\<bar> * \<bar>d - of_int k / 10\<bar>"
  proof -
    have "x - q = real_of_int R * (d - of_int k / 10)"
      by (simp add: x_def q_def algebra_simps)
    then show ?thesis by (simp add: abs_mult)
  qed
  also have "\<dots> \<le> \<bar>real_of_int R\<bar> * (d * pow2 (- 54))"
    using d(3) by (intro mult_left_mono) simp_all
  also have "\<dots> = \<bar>x\<bar> * pow2 (- 54)" by (simp add: absx)
  also have "\<dots> < p * pow2 53 * pow2 (- 54)"
    using xs by (intro mult_strict_right_mono) simp_all
  also have "\<dots> = p / 2" using h by (simp add: mult.assoc)
  finally have xq: "\<bar>x - q\<bar> < p / 2" .
  have "k * R = 10 * n + (k * R) mod 10" by (simp add: n_def)
  moreover have "0 \<le> (k * R) mod 10" "(k * R) mod 10 \<le> 9" by simp_all
  ultimately have "10 * n \<le> k * R" "k * R \<le> 10 * n + 9" by linarith+
  then have "real_of_int (10 * n) \<le> real_of_int (k * R)" "real_of_int (k * R) \<le> real_of_int (10 * n + 9)"
    by (simp_all only: of_int_le_iff)
  then have qn: "real_of_int n \<le> q" "q \<le> real_of_int n + 9 / 10" by (simp_all add: q_def)
  define N where "N = n * 2 ^ nat (- expo x)"
  have "pow2 (- expo x) * p = 1" using pow2_add [of "- expo x" "expo x"] by (simp add: p_def pow2_def)
  moreover have "pow2 (- expo x) = of_int (2 ^ nat (- expo x))" using e6 by (intro pow2_nat) simp
  ultimately have Np: "real_of_int N * p = real_of_int n" by (simp add: N_def mult.assoc)
  have "real_of_int m * p > real_of_int (N - 1) * p"
  proof -
    have "real_of_int (N - 1) * p = real_of_int n - p" using Np by (simp add: algebra_simps)
    then show ?thesis using err xq qn by linarith
  qed
  then have "real_of_int m > real_of_int (N - 1)" using ppos by (simp only: mult_less_cancel_right_pos)
  then have "N \<le> m" by linarith
  then have "real_of_int N \<le> real_of_int m" by (simp only: of_int_le_iff)
  then have "real_of_int N * p \<le> real_of_int m * p" using ppos by (intro mult_right_mono) simp_all
  then have lo: "real_of_int n \<le> real_of_int m * p" using Np by simp
  have hi: "real_of_int m * p < real_of_int n + 1" using err xq qn p64 by linarith
  have "\<lfloor>real_of_int m * p\<rfloor> = n" using lo hi by (intro floor_unique) simp_all
  with m show ?thesis unfolding x_def n_def by blast
qed

lemma floor_tenths: "\<lfloor>real_of_int a / 10\<rfloor> = a div 10"
proof -
  have "real_of_int a / 10 = real_of_int a / real_of_int 10" by simp
  then show ?thesis by (simp only: floor_divide_of_int_eq)
qed

lemma ffloor_fmul_lit:
  assumes "\<bar>R\<bar> \<le> 2 ^ 47"
  shows "ffloor (fmul (Fin (of_int R)) (num_lit 0.50)) = Fin (of_int \<lfloor>0.50 * real_of_int R\<rfloor>)"
    and "ffloor (fmul (Fin (of_int R)) (num_lit 0.30)) = Fin (of_int \<lfloor>0.30 * real_of_int R\<rfloor>)"
    and "ffloor (fmul (Fin (of_int R)) (num_lit 0.10)) = Fin (of_int \<lfloor>0.10 * real_of_int R\<rfloor>)"
proof -
  have "\<exists>y. fl (of_int R * (1 / 2)) = Fin y \<and> \<lfloor>y\<rfloor> = (5 * R) div 10"
    by (rule floor_fl_scaled [OF assms]) simp_all
  moreover have "0.50 * real_of_int R = real_of_int (5 * R) / 10" by simp
  ultimately show "ffloor (fmul (Fin (of_int R)) (num_lit 0.50)) = Fin (of_int \<lfloor>0.50 * real_of_int R\<rfloor>)"
    by (auto simp only: lit_050 fmul.simps ffloor.simps floor_tenths)
  have "\<exists>y. fl (of_int R * (5404319552844595 / 2 ^ 54)) = Fin y \<and> \<lfloor>y\<rfloor> = (3 * R) div 10"
    by (rule floor_fl_scaled [OF assms]) (simp_all add: pow2_def)
  moreover have "0.30 * real_of_int R = real_of_int (3 * R) / 10" by simp
  ultimately show "ffloor (fmul (Fin (of_int R)) (num_lit 0.30)) = Fin (of_int \<lfloor>0.30 * real_of_int R\<rfloor>)"
    by (auto simp only: lit_030 fmul.simps ffloor.simps floor_tenths)
  have "\<exists>y. fl (of_int R * (7205759403792794 / 2 ^ 56)) = Fin y \<and> \<lfloor>y\<rfloor> = (1 * R) div 10"
    by (rule floor_fl_scaled [OF assms]) (simp_all add: pow2_def)
  moreover have "0.10 * real_of_int R = real_of_int (1 * R) / 10" by simp
  ultimately show "ffloor (fmul (Fin (of_int R)) (num_lit 0.10)) = Fin (of_int \<lfloor>0.10 * real_of_int R\<rfloor>)"
    by (auto simp only: lit_010 fmul.simps ffloor.simps floor_tenths)
qed

lemma allocateTokenBudget_int:
  assumes "\<bar>B\<bar> \<le> 2 ^ 45" "\<bar>S\<bar> \<le> 2 ^ 45" "\<bar>T\<bar> \<le> 2 ^ 45"
  shows "allocateTokenBudget (Some (Fin (of_int B))) (Some (Fin (of_int S))) (Some (Fin (of_int T)))
     = \<lparr> system = Fin (of_int S), tasks = Fin (of_int T),
         bridgeBlock = Fin (of_int \<lfloor>0.50 * real_of_int (B - S - T)\<rfloor>),
         memories = Fin (of_int \<lfloor>0.30 * real_of_int (B - S - T)\<rfloor>),
         facts = Fin (of_int \<lfloor>0.10 * real_of_int (B - S - T)\<rfloor>),
         profile = Fin (of_int \<lfloor>0.10 * real_of_int (B - S - T)\<rfloor>),
         total = Fin (of_int (S + T + \<lfloor>0.50 * real_of_int (B - S - T)\<rfloor>
                   + \<lfloor>0.30 * real_of_int (B - S - T)\<rfloor> + \<lfloor>0.10 * real_of_int (B - S - T)\<rfloor>
                   + \<lfloor>0.10 * real_of_int (B - S - T)\<rfloor>)) \<rparr>"
proof -
  define R where "R = B - S - T"
  define b where "b = \<lfloor>0.50 * real_of_int R\<rfloor>"
  define m where "m = \<lfloor>0.30 * real_of_int R\<rfloor>"
  define f where "f = \<lfloor>0.10 * real_of_int R\<rfloor>"
  have B: "- 35184372088832 \<le> B" "B \<le> 35184372088832" using assms(1) by simp_all
  have S: "- 35184372088832 \<le> S" "S \<le> 35184372088832" using assms(2) by simp_all
  have T: "- 35184372088832 \<le> T" "T \<le> 35184372088832" using assms(3) by simp_all
  have R: "- 105553116266496 \<le> R" "R \<le> 105553116266496"
    unfolding R_def using B S T by linarith+
  have R47: "\<bar>R\<bar> \<le> 2 ^ 47" using R by simp
  have "0.50 * real_of_int R = real_of_int (5 * R) / 10" by simp
  then have b': "b = (5 * R) div 10" unfolding b_def by (simp only: floor_tenths)
  have "0.30 * real_of_int R = real_of_int (3 * R) / 10" by simp
  then have m': "m = (3 * R) div 10" unfolding m_def by (simp only: floor_tenths)
  have "0.10 * real_of_int R = real_of_int R / 10" by simp
  then have f': "f = R div 10" unfolding f_def by (simp only: floor_tenths)
  have b: "- 105553116266496 \<le> b" "b \<le> 105553116266496"
    unfolding b' using R by linarith+
  have m: "- 105553116266496 \<le> m" "m \<le> 105553116266496"
    unfolding m' using R by linarith+
  have f: "- 105553116266496 \<le> f" "f \<le> 105553116266496"
    unfolding f' using R by linarith+
  have lim: "(2::int) ^ 53 = 9007199254740992" by simp
  have r1: "fsub (Fin (of_int B)) (Fin (of_int S)) = Fin (of_int (B - S))"
  proof (rule fsub_int)
    show "\<bar>B - S\<bar> < 2 ^ 53" unfolding lim using B S by linarith
  qed
  have r2: "fsub (Fin (of_int (B - S))) (Fin (of_int T)) = Fin (of_int R)"
    unfolding R_def
  proof (rule fsub_int)
    show "\<bar>B - S - T\<bar> < 2 ^ 53" unfolding lim using B S T by linarith
  qed
  have t1: "fadd (Fin (of_int S)) (Fin (of_int T)) = Fin (of_int (S + T))"
  proof (rule fadd_int)
    show "\<bar>S + T\<bar> < 2 ^ 53" unfolding lim using S T by linarith
  qed
  have t2: "fadd (Fin (of_int (S + T))) (Fin (of_int b)) = Fin (of_int (S + T + b))"
  proof (rule fadd_int)
    show "\<bar>S + T + b\<bar> < 2 ^ 53" unfolding lim using S T b by linarith
  qed
  have t3: "fadd (Fin (of_int (S + T + b))) (Fin (of_int m)) = Fin (of_int (S + T + b + m))"
  proof (rule fadd_int)
    show "\<bar>S + T + b + m\<bar> < 2 ^ 53" unfolding lim using S T b m by linarith
  qed
  have t4: "fadd (Fin (of_int (S + T + b + m))) (Fin (of_int f)) = Fin (of_int (S + T + b + m + f))"
  proof (rule fadd_int)
    show "\<bar>S + T + b + m + f\<bar> < 2 ^ 53" unfolding lim using S T b m f by linarith
  qed
  have t5: "fadd (Fin (of_int (S + T + b + m + f))) (Fin (of_int f)) = Fin (of_int (S + T + b + m + f + f))"
  proof (rule fadd_int)
    show "\<bar>S + T + b + m + f + f\<bar> < 2 ^ 53" unfolding lim using S T b m f by linarith
  qed
  show ?thesis
    unfolding allocateTokenBudget_def Let_def option.case r1 r2 ffloor_fmul_lit [OF R47]
    unfolding R_def [symmetric] b_def [symmetric] m_def [symmetric] f_def [symmetric]
    unfolding t1 t2 t3 t4 t5 ..
qed

text \<open>
  Claim C8 says that for every \<open>B\<close>, \<open>S\<close>, \<open>T\<close>, with \<open>R = B - S - T\<close>, the allocation returns
  \<open>system = S\<close>, \<open>tasks = T\<close>, \<open>bridgeBlock = floor (0.50 R)\<close>, \<open>memories = floor (0.30 R)\<close>,
  \<open>facts = floor (0.10 R)\<close>, \<open>profile = floor (0.10 R)\<close> and \<open>total\<close> the sum of the six, and
  that \<open>allocateTokenBudget(4000, 500, 500)\<close> is \<open>500, 500, 1500, 900, 300, 300\<close>, total
  \<open>4000\<close>. On doubles this holds for integer budgets of magnitude up to \<open>2 ^ 45\<close>: the
  floors of the rounded products with the doubles nearest to \<open>0.30\<close> and \<open>0.10\<close> are the
  floors of the exact products, and no sum rounds.
\<close>

theorem allocateTokenBudget_bounded:
  assumes "\<bar>B\<bar> \<le> 2 ^ 45" "\<bar>S\<bar> \<le> 2 ^ 45" "\<bar>T\<bar> \<le> 2 ^ 45"
  shows "allocateTokenBudget (Some (Fin (of_int B))) (Some (Fin (of_int S))) (Some (Fin (of_int T)))
     = \<lparr> system = Fin (of_int S), tasks = Fin (of_int T),
         bridgeBlock = Fin (of_int \<lfloor>0.50 * real_of_int (B - S - T)\<rfloor>),
         memories = Fin (of_int \<lfloor>0.30 * real_of_int (B - S - T)\<rfloor>),
         facts = Fin (of_int \<lfloor>0.10 * real_of_int (B - S - T)\<rfloor>),
         profile = Fin (of_int \<lfloor>0.10 * real_of_int (B - S - T)\<rfloor>),
         total = Fin (of_int (S + T + \<lfloor>0.50 * real_of_int (B - S - T)\<rfloor>
                   + \<lfloor>0.30 * real_of_int (B - S - T)\<rfloor> + \<lfloor>0.10 * real_of_int (B - S - T)\<rfloor>
                   + \<lfloor>0.10 * real_of_int (B - S - T)\<rfloor>)) \<rparr>
   \<and> allocateTokenBudget (Some (Fin 4000)) (Some (Fin 500)) (Some (Fin 500))
     = \<lparr> system = Fin 500, tasks = Fin 500, bridgeBlock = Fin 1500, memories = Fin 900,
         facts = Fin 300, profile = Fin 300, total = Fin 4000 \<rparr>"
proof
  show "allocateTokenBudget (Some (Fin (of_int B))) (Some (Fin (of_int S))) (Some (Fin (of_int T)))
     = \<lparr> system = Fin (of_int S), tasks = Fin (of_int T),
         bridgeBlock = Fin (of_int \<lfloor>0.50 * real_of_int (B - S - T)\<rfloor>),
         memories = Fin (of_int \<lfloor>0.30 * real_of_int (B - S - T)\<rfloor>),
         facts = Fin (of_int \<lfloor>0.10 * real_of_int (B - S - T)\<rfloor>),
         profile = Fin (of_int \<lfloor>0.10 * real_of_int (B - S - T)\<rfloor>),
         total = Fin (of_int (S + T + \<lfloor>0.50 * real_of_int (B - S - T)\<rfloor>
                   + \<lfloor>0.30 * real_of_int (B - S - T)\<rfloor> + \<lfloor>0.10 * real_of_int (B - S - T)\<rfloor>
                   + \<lfloor>0.10 * real_of_int (B - S - T)\<rfloor>)) \<rparr>"
    by (rule allocateTokenBudget_int [OF assms])
  show "allocateTokenBudget (Some (Fin 4000)) (Some (Fin 500)) (Some (Fin 500))
     = \<lparr> system = Fin 500, tasks = Fin 500, bridgeBlock = Fin 1500, memories = Fin 900,
         facts = Fin 300, profile = Fin 300, total = Fin 4000 \<rparr>"
    using allocateTokenBudget_int [of 4000 500 500] by simp
qed

theorem allocateTokenBudget_bounded_witness:
  "allocateTokenBudget (Some (Fin 10000)) (Some (Fin 1000)) (Some (Fin 777))
     = \<lparr> system = Fin 1000, tasks = Fin 777, bridgeBlock = Fin 4111, memories = Fin 2466,
         facts = Fin 822, profile = Fin 822, total = Fin 9998 \<rparr>"
proof -
  have f: "\<lfloor>8223 / 2 :: real\<rfloor> = 4111" "\<lfloor>3 * 8223 / 10 :: real\<rfloor> = 2466" "\<lfloor>8223 / 10 :: real\<rfloor> = 822"
    by simp_all
  from allocateTokenBudget_bounded [of 10000 1000 777] show ?thesis by (simp add: f)
qed

lemma fl_2_53_2: "fl 9007199254740994 = Fin 9007199254740994"
proof (rule fl_exact [where n = 4503599627370497 and k = 1])
  show "(9007199254740994 :: real) = of_int 4503599627370497 * pow2 1" by (simp add: pow2_def)
  show "expo 9007199254740994 \<le> 1" by (rule expo_upper) (simp_all add: pow2_def)
  show "\<bar>9007199254740994 :: real\<bar> < pow2 1024"
    using pow2_strict_mono [of 54 1024] by (simp add: pow2_def)
qed

lemma fl_2_53_1: "fl 9007199254740993 = Fin 9007199254740992"
proof -
  have r: "round_even (9007199254740993 / pow2 1) = 4503599627370496"
    by (simp add: round_even_def pow2_def)
  have "fl 9007199254740993 = Fin (of_int 4503599627370496 * pow2 1)"
    by (rule fl_eval [OF _ _ _ _ r]) (simp_all add: pow2_def)
  then show ?thesis by (simp add: pow2_def)
qed

lemma fl_big_030:
  "fl (9007199254740994 * (5404319552844595 / 2 ^ 54)) = Fin 2702159776422298"
proof -
  have r: "round_even (9007199254740994 * (5404319552844595 / 2 ^ 54) / pow2 (- 1)) = 5404319552844596"
    by (rule round_even_near) (simp add: pow2_def)
  have "fl (9007199254740994 * (5404319552844595 / 2 ^ 54)) = Fin (of_int 5404319552844596 * pow2 (- 1))"
    by (rule fl_eval [OF _ _ _ _ r]) (simp_all add: pow2_def)
  then show ?thesis by (simp add: pow2_def)
qed

lemma fl_big_010:
  "fl (9007199254740994 * (7205759403792794 / 2 ^ 56)) = Fin (1801439850948199 / 2)"
proof -
  have r: "round_even (9007199254740994 * (7205759403792794 / 2 ^ 56) / pow2 (- 3)) = 7205759403792796"
    by (rule round_even_near) (simp add: pow2_def)
  have "fl (9007199254740994 * (7205759403792794 / 2 ^ 56)) = Fin (of_int 7205759403792796 * pow2 (- 3))"
    by (rule fl_eval [OF _ _ _ _ r]) (simp_all add: pow2_def)
  then show ?thesis by (simp add: pow2_def)
qed

text \<open>
  Beyond that range the sum rounds. For \<open>B = 2 ^ 53 + 2\<close> and \<open>S = T = 0\<close> the four floors are
  those of the exact products, the six fields add up to \<open>2 ^ 53 + 1\<close>, which is not a double,
  and \<open>total\<close> is \<open>2 ^ 53\<close>.
\<close>

theorem allocateTokenBudget_total_counterexample:
  "allocateTokenBudget (Some (Fin 9007199254740994)) (Some (Fin 0)) (Some (Fin 0))
     = \<lparr> system = Fin 0, tasks = Fin 0, bridgeBlock = Fin 4503599627370497,
         memories = Fin 2702159776422298, facts = Fin 900719925474099,
         profile = Fin 900719925474099, total = Fin 9007199254740992 \<rparr>
   \<and> total (allocateTokenBudget (Some (Fin 9007199254740994)) (Some (Fin 0)) (Some (Fin 0)))
     \<noteq> Fin (0 + 0 + 4503599627370497 + 2702159776422298 + 900719925474099 + 900719925474099)"
proof -
  have R: "fsub (fsub (Fin 9007199254740994) (Fin 0)) (Fin 0) = Fin 9007199254740994"
    by (simp add: fsub_def fl_2_53_2)
  have b: "ffloor (fmul (Fin 9007199254740994) (num_lit 0.50)) = Fin 4503599627370497"
    by (simp only: lit_050 fmul.simps) (simp add: fl_numeral)
  have m: "ffloor (fmul (Fin 9007199254740994) (num_lit 0.30)) = Fin 2702159776422298"
    by (simp only: lit_030 fmul.simps fl_big_030) simp
  have f: "ffloor (fmul (Fin 9007199254740994) (num_lit 0.10)) = Fin 900719925474099"
    by (simp only: lit_010 fmul.simps fl_big_010) simp
  have t: "fadd (fadd (fadd (fadd (fadd (Fin 0) (Fin 0)) (Fin 4503599627370497))
              (Fin 2702159776422298)) (Fin 900719925474099)) (Fin 900719925474099)
           = Fin 9007199254740992"
    by (simp add: fl_numeral fl_2_53_1)
  have a: "allocateTokenBudget (Some (Fin 9007199254740994)) (Some (Fin 0)) (Some (Fin 0))
     = \<lparr> system = Fin 0, tasks = Fin 0, bridgeBlock = Fin 4503599627370497,
         memories = Fin 2702159776422298, facts = Fin 900719925474099,
         profile = Fin 900719925474099, total = Fin 9007199254740992 \<rparr>"
    unfolding allocateTokenBudget_def Let_def option.case R b m f t ..
  show ?thesis unfolding a by simp
qed

section \<open>Cosine similarity: properties\<close>






























end
